theory Spec2Isabelle
  imports Main "HOL-Library.Word" "HOL-Library.Log_Nat"
begin

section \<open>Values of the run-time and of the libraries the SDK calls\<close>

text \<open>
  A \<open>Buffer\<close> is a list of bytes. A \<open>BN\<close> (bn.js) is an integer of any size. Every
  exception the code can raise is a value of \<open>error\<close>: \<open>RangeError\<close> is raised by a
  bounds-checked read of a \<open>Buffer\<close> and by \<open>new Array\<close> with a negative length,
  \<open>AssertionError\<close> by the assertions of bn.js, \<open>InvalidPublicKeyInput\<close> by the
  constructor of \<open>PublicKey\<close>, \<open>DerivationError\<close> by the address search.
\<close>

type_synonym byte = "8 word"
type_synonym Buffer = "byte list"
type_synonym BN = int

datatype error = RangeError | AssertionError | InvalidPublicKeyInput | DerivationError

definition ebind :: "error + 'a \<Rightarrow> ('a \<Rightarrow> error + 'b) \<Rightarrow> error + 'b" where
  "ebind m f = (case m of Inl e \<Rightarrow> Inl e | Inr x \<Rightarrow> f x)"

text \<open>\<open>b.slice(start, end)\<close> for \<open>0 \<le> start \<le> end\<close>: both ends are clamped to the
  length of the buffer, so a slice that runs past the end is shorter, not an error.\<close>

definition slice :: "Buffer \<Rightarrow> nat \<Rightarrow> nat \<Rightarrow> Buffer" where
  "slice b start end' = take (end' - start) (drop start b)"

text \<open>\<open>b.readUIntLE(offset, 1)\<close>: the read is bounds-checked.\<close>

definition readUInt8 :: "Buffer \<Rightarrow> nat \<Rightarrow> error + nat" where
  "readUInt8 b offset = (if offset + 1 \<le> length b then Inr (unat (b ! offset)) else Inl RangeError)"

text \<open>\<open>new BN(bytes, "le")\<close> and \<open>new BN(bytes)\<close> (big-endian): the unsigned value of
  the bytes; the empty array is 0.\<close>

fun BN_le :: "Buffer \<Rightarrow> BN" where
  "BN_le [] = 0"
| "BN_le (x # xs) = uint x + 256 * BN_le xs"

definition BN_be :: "Buffer \<Rightarrow> BN" where
  "BN_be bs = foldl (\<lambda>acc x. acc * 256 + uint x) 0 bs"

text \<open>\<open>bn.byteLength()\<close> is \<open>ceil(bitLength / 8)\<close>; \<open>bn.toArrayLike(Buffer)\<close> gives the
  big-endian bytes without leading zeros, and one zero byte for 0.\<close>

definition byteLength :: "BN \<Rightarrow> int" where
  "byteLength n = (bitlen n + 7) div 8"

function BN_toArray :: "nat \<Rightarrow> Buffer" where
  "BN_toArray n = (if n < 256 then [of_nat n] else BN_toArray (n div 256) @ [of_nat (n mod 256)])"
  by pat_completeness auto
termination
  by (relation "measure id") auto

text \<open>A \<open>PublicKey\<close> (web3.js) keeps the big number of the bytes it was built from and
  refuses more than 32 bytes; \<open>toBuffer\<close> pads it to 32 bytes on the left.\<close>

datatype PublicKey = PublicKey (bn: BN)

definition new_PublicKey :: "Buffer \<Rightarrow> error + PublicKey" where
  "new_PublicKey v =
     (let n = BN_be v in if byteLength n > 32 then Inl InvalidPublicKeyInput else Inr (PublicKey n))"

definition toBuffer :: "PublicKey \<Rightarrow> Buffer" where
  "toBuffer k =
     (let b = BN_toArray (nat (bn k))
      in if length b = 32 then b else replicate (32 - length b) 0 @ b)"

section \<open>The record layout (buffer-layout)\<close>

text \<open>
  \<open>BufferLayout.blob(n, p)\<close> decodes to \<open>b.slice(offset, offset + n)\<close>, with no check of
  the length of \<open>b\<close>; \<open>BufferLayout.u8(p)\<close> decodes to \<open>b.readUIntLE(offset, 1)\<close>. A
  structure decodes its fields in order, each at the offset where the spans of the
  fields before it end, into an object with one property a field.
\<close>

datatype Layout = blob nat string | u8 string

datatype decoded = Blob Buffer | UInt nat

fun span :: "Layout \<Rightarrow> nat" where
  "span (blob n p) = n"
| "span (u8 p) = 1"

fun property :: "Layout \<Rightarrow> string" where
  "property (blob n p) = p"
| "property (u8 p) = p"

fun Layout_decode :: "Layout \<Rightarrow> Buffer \<Rightarrow> nat \<Rightarrow> error + decoded" where
  "Layout_decode (blob n p) b offset = Inr (Blob (slice b offset (offset + n)))"
| "Layout_decode (u8 p) b offset = ebind (readUInt8 b offset) (\<lambda>v. Inr (UInt v))"

fun struct_decode ::
  "Layout list \<Rightarrow> Buffer \<Rightarrow> nat \<Rightarrow> (string \<rightharpoonup> decoded) \<Rightarrow> error + (string \<rightharpoonup> decoded)" where
  "struct_decode [] b offset dest = Inr dest"
| "struct_decode (fd # fds) b offset dest =
     ebind (Layout_decode fd b offset)
       (\<lambda>v. struct_decode fds b (offset + span fd) (dest(property fd \<mapsto> v)))"

definition TokenStreamDataLayout :: "Layout list" where
  "TokenStreamDataLayout =
    [blob 8 ''magic'',
     blob 1 ''version'',
     blob 8 ''created_at'',
     blob 8 ''withdrawn_amount'',
     blob 8 ''canceled_at'',
     blob 8 ''end_time'',
     blob 8 ''last_withdrawn_at'',
     blob 32 ''sender'',
     blob 32 ''sender_tokens'',
     blob 32 ''recipient'',
     blob 32 ''recipient_tokens'',
     blob 32 ''mint'',
     blob 32 ''escrow_tokens'',
     blob 32 ''streamdao_treasury'',
     blob 32 ''streamdao_treasury_tokens'',
     blob 8 ''streamdao_fee_total'',
     blob 8 ''streamdao_fee_withdrawn'',
     blob 4 ''streamdao_fee_percent'',
     blob 32 ''partner'',
     blob 32 ''partner_tokens'',
     blob 8 ''partner_fee_total'',
     blob 8 ''partner_fee_withdrawn'',
     blob 4 ''partner_fee_percent'',
     blob 8 ''start_time'',
     blob 8 ''net_deposited_amount'',
     blob 8 ''period'',
     blob 8 ''amount_per_period'',
     blob 8 ''cliff'',
     blob 8 ''cliff_amount'',
     u8 ''cancelable_by_sender'',
     u8 ''cancelable_by_recipient'',
     u8 ''automatic_withdrawal'',
     u8 ''transferable_by_sender'',
     u8 ''transferable_by_recipient'',
     u8 ''can_topup'',
     blob 64 ''stream_name'',
     blob 8 ''withdraw_frequency'']"

definition STREAM_STRUCT_OFFSET_SENDER :: nat where
  "STREAM_STRUCT_OFFSET_SENDER = 49"

definition STREAM_STRUCT_OFFSET_RECIPIENT :: nat where
  "STREAM_STRUCT_OFFSET_RECIPIENT = 113"

text \<open>Reading a property of the decoded object. A property that is absent reads as
  \<open>undefined\<close>, which \<open>new BN\<close> takes for 0 and \<open>Boolean\<close> for false.\<close>

definition blob_of :: "(string \<rightharpoonup> decoded) \<Rightarrow> string \<Rightarrow> Buffer" where
  "blob_of raw p = (case raw p of Some (Blob b) \<Rightarrow> b | _ \<Rightarrow> [])"

definition uint_of :: "(string \<rightharpoonup> decoded) \<Rightarrow> string \<Rightarrow> nat" where
  "uint_of raw p = (case raw p of Some (UInt n) \<Rightarrow> n | _ \<Rightarrow> 0)"

definition Boolean :: "nat \<Rightarrow> bool" where
  "Boolean n = (n \<noteq> 0)"

section \<open>decodeStream\<close>

text \<open>The text of the name is what \<open>TextDecoder.decode\<close> makes of the 64 bytes; the
  decoder is a parameter, \<open>'t\<close> the type of its texts.\<close>

record 't DecodedStream =
  magic :: BN
  version :: BN
  createdAt :: BN
  withdrawnAmount :: BN
  canceledAt :: BN
  end' :: BN
  lastWithdrawnAt :: BN
  sender :: PublicKey
  senderTokens :: PublicKey
  recipient :: PublicKey
  recipientTokens :: PublicKey
  mint :: PublicKey
  escrowTokens :: PublicKey
  streamdaoTreasury :: PublicKey
  streamdaoTreasuryTokens :: PublicKey
  streamdaoFeeTotal :: BN
  streamdaoFeeWithdrawn :: BN
  streamdaoFeePercent :: BN
  partnerFeeTotal :: BN
  partnerFeeWithdrawn :: BN
  partnerFeePercent :: BN
  partner :: PublicKey
  partnerTokens :: PublicKey
  start :: BN
  depositedAmount :: BN
  period :: BN
  amountPerPeriod :: BN
  cliff :: BN
  cliffAmount :: BN
  cancelableBySender :: bool
  cancelableByRecipient :: bool
  automaticWithdrawal :: bool
  transferableBySender :: bool
  transferableByRecipient :: bool
  canTopup :: bool
  name :: 't
  withdrawalFrequency :: BN

definition decodeStream :: "(Buffer \<Rightarrow> 't) \<Rightarrow> Buffer \<Rightarrow> error + 't DecodedStream" where
  "decodeStream decoder buf =
     ebind (struct_decode TokenStreamDataLayout buf 0 Map.empty) (\<lambda>raw.
     ebind (new_PublicKey (blob_of raw ''sender'')) (\<lambda>k_sender.
     ebind (new_PublicKey (blob_of raw ''sender_tokens'')) (\<lambda>k_senderTokens.
     ebind (new_PublicKey (blob_of raw ''recipient'')) (\<lambda>k_recipient.
     ebind (new_PublicKey (blob_of raw ''recipient_tokens'')) (\<lambda>k_recipientTokens.
     ebind (new_PublicKey (blob_of raw ''mint'')) (\<lambda>k_mint.
     ebind (new_PublicKey (blob_of raw ''escrow_tokens'')) (\<lambda>k_escrowTokens.
     ebind (new_PublicKey (blob_of raw ''streamdao_treasury'')) (\<lambda>k_treasury.
     ebind (new_PublicKey (blob_of raw ''streamdao_treasury_tokens'')) (\<lambda>k_treasuryTokens.
     ebind (new_PublicKey (blob_of raw ''partner'')) (\<lambda>k_partner.
     ebind (new_PublicKey (blob_of raw ''partner_tokens'')) (\<lambda>k_partnerTokens.
     Inr \<lparr> magic = BN_le (blob_of raw ''magic''),
           version = BN_le (blob_of raw ''version''),
           createdAt = BN_le (blob_of raw ''created_at''),
           withdrawnAmount = BN_le (blob_of raw ''withdrawn_amount''),
           canceledAt = BN_le (blob_of raw ''canceled_at''),
           end' = BN_le (blob_of raw ''end_time''),
           lastWithdrawnAt = BN_le (blob_of raw ''last_withdrawn_at''),
           sender = k_sender,
           senderTokens = k_senderTokens,
           recipient = k_recipient,
           recipientTokens = k_recipientTokens,
           mint = k_mint,
           escrowTokens = k_escrowTokens,
           streamdaoTreasury = k_treasury,
           streamdaoTreasuryTokens = k_treasuryTokens,
           streamdaoFeeTotal = BN_le (blob_of raw ''streamdao_fee_total''),
           streamdaoFeeWithdrawn = BN_le (blob_of raw ''streamdao_fee_withdrawn''),
           streamdaoFeePercent = BN_le (blob_of raw ''streamdao_fee_percent''),
           partnerFeeTotal = BN_le (blob_of raw ''partner_fee_total''),
           partnerFeeWithdrawn = BN_le (blob_of raw ''partner_fee_withdrawn''),
           partnerFeePercent = BN_le (blob_of raw ''partner_fee_percent''),
           partner = k_partner,
           partnerTokens = k_partnerTokens,
           start = BN_le (blob_of raw ''start_time''),
           depositedAmount = BN_le (blob_of raw ''net_deposited_amount''),
           period = BN_le (blob_of raw ''period''),
           amountPerPeriod = BN_le (blob_of raw ''amount_per_period''),
           cliff = BN_le (blob_of raw ''cliff''),
           cliffAmount = BN_le (blob_of raw ''cliff_amount''),
           cancelableBySender = Boolean (uint_of raw ''cancelable_by_sender''),
           cancelableByRecipient = Boolean (uint_of raw ''cancelable_by_recipient''),
           automaticWithdrawal = Boolean (uint_of raw ''automatic_withdrawal''),
           transferableBySender = Boolean (uint_of raw ''transferable_by_sender''),
           transferableByRecipient = Boolean (uint_of raw ''transferable_by_recipient''),
           canTopup = Boolean (uint_of raw ''can_topup''),
           name = decoder (blob_of raw ''stream_name''),
           withdrawalFrequency = BN_le (blob_of raw ''withdraw_frequency'') \<rparr>)))))))))))"

text \<open>The offset of a field of the layout as the sum of the spans of the fields
  before it, and the bytes of a buffer at a field of a given width: what the claims
  about the layout are stated with.\<close>

definition offset_of :: "string \<Rightarrow> nat" where
  "offset_of p =
     sum_list (map span (takeWhile (\<lambda>fd. property fd \<noteq> p) TokenStreamDataLayout))"

definition field :: "Buffer \<Rightarrow> string \<Rightarrow> nat \<Rightarrow> Buffer" where
  "field buf p w = take w (drop (offset_of p) buf)"

text \<open>A buffer without its leading zero bytes.\<close>

definition strip :: "Buffer \<Rightarrow> Buffer" where
  "strip bs = dropWhile (\<lambda>x. x = 0) bs"

text \<open>The unsigned little-endian value of the \<open>w\<close> bytes of a buffer from an offset,
  byte \<open>i\<close> weighing \<open>256 ^ i\<close>.\<close>

definition unsigned_le :: "Buffer \<Rightarrow> nat \<Rightarrow> nat \<Rightarrow> int" where
  "unsigned_le buf off w = (\<Sum>i\<leftarrow>[0..<w]. uint (buf ! (off + i)) * 256 ^ i)"

text \<open>
  The table of section 3 of the specification, row by row and in each row in the order
  it names the fields, every field under the name the layout gives it (\<open>endTime\<close> is
  \<open>end_time\<close>, \<open>treasuryAddress\<close> is \<open>streamdao_treasury\<close>, \<open>netDepositedAmount\<close> is
  \<open>net_deposited_amount\<close>, and so on) with the width of its row; and the offset a field
  would have if the record were laid out in that order.
\<close>

definition section3_table :: "(string \<times> nat) list" where
  "section3_table =
    [(''magic'', 8),
     (''version'', 1),
     (''created_at'', 8),
     (''canceled_at'', 8),
     (''end_time'', 8),
     (''last_withdrawn_at'', 8),
     (''start_time'', 8),
     (''withdrawn_amount'', 8),
     (''net_deposited_amount'', 8),
     (''amount_per_period'', 8),
     (''cliff_amount'', 8),
     (''period'', 8),
     (''cliff'', 8),
     (''withdraw_frequency'', 8),
     (''sender'', 32),
     (''sender_tokens'', 32),
     (''recipient'', 32),
     (''recipient_tokens'', 32),
     (''mint'', 32),
     (''escrow_tokens'', 32),
     (''streamdao_treasury'', 32),
     (''streamdao_treasury_tokens'', 32),
     (''partner'', 32),
     (''partner_tokens'', 32),
     (''streamdao_fee_total'', 8),
     (''streamdao_fee_withdrawn'', 8),
     (''partner_fee_total'', 8),
     (''partner_fee_withdrawn'', 8),
     (''streamdao_fee_percent'', 4),
     (''partner_fee_percent'', 4),
     (''cancelable_by_sender'', 1),
     (''cancelable_by_recipient'', 1),
     (''automatic_withdrawal'', 1),
     (''transferable_by_sender'', 1),
     (''transferable_by_recipient'', 1),
     (''can_topup'', 1),
     (''stream_name'', 64)]"

definition table_offset :: "string \<Rightarrow> nat" where
  "table_offset p = sum_list (map snd (takeWhile (\<lambda>e. fst e \<noteq> p) section3_table))"

section \<open>Numbers\<close>

text \<open>
  A JavaScript number is an IEEE 754 double. The finite doubles are modelled as the
  rationals they denote, and \<open>fl\<close> rounds an exact result to the nearest double, ties
  to even: 53 bits of significand, smallest unit \<open>2 ^ - 1074\<close>. The two zeros are one,
  and \<open>Infinity\<close> and \<open>NaN\<close> are not modelled: a result of magnitude \<open>2 ^ 1024\<close> or more
  stays the finite rational. \<open>10 ** decimals\<close> is taken correctly rounded, which is
  exact up to \<open>decimals = 22\<close>; \<open>decimals\<close> is a count, a natural number.
\<close>

type_synonym number = rat

definition round_even :: "rat \<Rightarrow> int" where
  "round_even y =
     (let f = \<lfloor>y\<rfloor>; r = y - of_int f
      in if r < 1 / 2 then f else if 1 / 2 < r then f + 1 else if even f then f else f + 1)"

text \<open>For \<open>0 < x\<close>, the exponent \<open>k\<close> with \<open>2 ^ k \<le> x < 2 ^ (k + 1)\<close>.\<close>

definition ilog2 :: "rat \<Rightarrow> int" where
  "ilog2 x = (if 1 \<le> x then bitlen \<lfloor>x\<rfloor> - 1 else - bitlen (\<lceil>1 / x\<rceil> - 1))"

definition fl :: "rat \<Rightarrow> number" where
  "fl x =
     (if x = 0 then 0
      else let u = 2 powi (max (ilog2 \<bar>x\<bar> - 52) (- 1074))
           in of_int (round_even (x / u)) * u)"

definition js_mul :: "number \<Rightarrow> number \<Rightarrow> number" where
  "js_mul a b = fl (a * b)"

definition js_div :: "number \<Rightarrow> number \<Rightarrow> number" where
  "js_div a b = fl (a / b)"

definition js_pow10 :: "nat \<Rightarrow> number" where
  "js_pow10 decimals = fl (10 ^ decimals)"

text \<open>\<open>2 ** 53 - 1\<close>, exact.\<close>

definition MAX_SAFE :: number where
  "MAX_SAFE = 2 ^ 53 - 1"

text \<open>
  bn.js: \<open>new BN(x)\<close> of a number asserts \<open>\<bar>x\<bar> < 2 ^ 53\<close> and keeps the integer part
  of \<open>x\<close> (its words are cut with bit masks); \<open>a.div(b)\<close> asserts \<open>b \<noteq> 0\<close> and truncates
  towards zero; \<open>a.toNumber()\<close> asserts that \<open>a\<close> fits in 53 bits.
\<close>

definition trunc :: "rat \<Rightarrow> int" where
  "trunc x = (if x < 0 then - \<lfloor>- x\<rfloor> else \<lfloor>x\<rfloor>)"

definition new_BN :: "number \<Rightarrow> error + BN" where
  "new_BN x = (if \<bar>x\<bar> < 2 ^ 53 then Inr (trunc x) else Inl AssertionError)"

definition BN_div :: "BN \<Rightarrow> BN \<Rightarrow> error + BN" where
  "BN_div a b = (if b = 0 then Inl AssertionError else Inr (sgn a * sgn b * (\<bar>a\<bar> div \<bar>b\<bar>)))"

definition toNumber :: "BN \<Rightarrow> error + number" where
  "toNumber a = (if \<bar>a\<bar> < 2 ^ 53 then Inr (of_int a) else Inl AssertionError)"

section \<open>The amount scaler\<close>

definition getBN :: "number \<Rightarrow> nat \<Rightarrow> error + BN" where
  "getBN value decimals =
     (if js_div MAX_SAFE (js_pow10 decimals) < value
      then ebind (new_BN value) (\<lambda>a. ebind (new_BN (js_pow10 decimals)) (\<lambda>b. Inr (a * b)))
      else new_BN (js_mul value (js_pow10 decimals)))"

definition getNumberFromBN :: "BN \<Rightarrow> nat \<Rightarrow> error + number" where
  "getNumberFromBN value decimals =
     ebind (new_BN MAX_SAFE) (\<lambda>m.
       if m < value
       then ebind (new_BN (js_pow10 decimals)) (\<lambda>b. ebind (BN_div value b) toNumber)
       else ebind (toNumber value) (\<lambda>v. Inr (js_div v (js_pow10 decimals))))"

text \<open>The round trip \<open>getNumberFromBN(getBN(x, decimals), decimals)\<close>.\<close>

definition roundTrip :: "number \<Rightarrow> nat \<Rightarrow> error + number" where
  "roundTrip x decimals = ebind (getBN x decimals) (\<lambda>n. getNumberFromBN n decimals)"

section \<open>formatDecodedStream\<close>

text \<open>\<open>toBase58\<close> of a public key is a parameter, \<open>'s\<close> the type of its strings.\<close>

record ('s, 't) Stream =
  magic :: number
  version :: number
  createdAt :: number
  withdrawnAmount :: BN
  canceledAt :: number
  end' :: number
  lastWithdrawnAt :: number
  sender :: 's
  senderTokens :: 's
  recipient :: 's
  recipientTokens :: 's
  mint :: 's
  escrowTokens :: 's
  streamdaoTreasury :: 's
  streamdaoTreasuryTokens :: 's
  streamdaoFeeTotal :: BN
  streamdaoFeeWithdrawn :: BN
  streamdaoFeePercent :: number
  partnerFeeTotal :: BN
  partnerFeeWithdrawn :: BN
  partnerFeePercent :: number
  partner :: 's
  partnerTokens :: 's
  start :: number
  depositedAmount :: BN
  period :: number
  amountPerPeriod :: BN
  cliff :: number
  cliffAmount :: BN
  cancelableBySender :: bool
  cancelableByRecipient :: bool
  automaticWithdrawal :: bool
  transferableBySender :: bool
  transferableByRecipient :: bool
  canTopup :: bool
  name :: 't
  withdrawalFrequency :: number

definition formatDecodedStream ::
  "(PublicKey \<Rightarrow> 's) \<Rightarrow> 't DecodedStream \<Rightarrow> error + ('s, 't) Stream" where
  "formatDecodedStream toBase58 stream =
     ebind (toNumber (DecodedStream.magic stream)) (\<lambda>n_magic.
     ebind (toNumber (DecodedStream.version stream)) (\<lambda>n_version.
     ebind (toNumber (DecodedStream.createdAt stream)) (\<lambda>n_createdAt.
     ebind (toNumber (DecodedStream.canceledAt stream)) (\<lambda>n_canceledAt.
     ebind (toNumber (DecodedStream.end' stream)) (\<lambda>n_end.
     ebind (toNumber (DecodedStream.lastWithdrawnAt stream)) (\<lambda>n_lastWithdrawnAt.
     ebind (toNumber (DecodedStream.streamdaoFeePercent stream)) (\<lambda>n_streamdaoFeePercent.
     ebind (toNumber (DecodedStream.partnerFeePercent stream)) (\<lambda>n_partnerFeePercent.
     ebind (toNumber (DecodedStream.start stream)) (\<lambda>n_start.
     ebind (toNumber (DecodedStream.period stream)) (\<lambda>n_period.
     ebind (toNumber (DecodedStream.cliff stream)) (\<lambda>n_cliff.
     ebind (toNumber (DecodedStream.withdrawalFrequency stream)) (\<lambda>n_withdrawalFrequency.
     Inr \<lparr> magic = n_magic,
           version = n_version,
           createdAt = n_createdAt,
           withdrawnAmount = DecodedStream.withdrawnAmount stream,
           canceledAt = n_canceledAt,
           end' = n_end,
           lastWithdrawnAt = n_lastWithdrawnAt,
           sender = toBase58 (DecodedStream.sender stream),
           senderTokens = toBase58 (DecodedStream.senderTokens stream),
           recipient = toBase58 (DecodedStream.recipient stream),
           recipientTokens = toBase58 (DecodedStream.recipientTokens stream),
           mint = toBase58 (DecodedStream.mint stream),
           escrowTokens = toBase58 (DecodedStream.escrowTokens stream),
           streamdaoTreasury = toBase58 (DecodedStream.streamdaoTreasury stream),
           streamdaoTreasuryTokens = toBase58 (DecodedStream.streamdaoTreasuryTokens stream),
           streamdaoFeeTotal = DecodedStream.streamdaoFeeTotal stream,
           streamdaoFeeWithdrawn = DecodedStream.streamdaoFeeWithdrawn stream,
           streamdaoFeePercent = n_streamdaoFeePercent,
           partnerFeeTotal = DecodedStream.partnerFeeTotal stream,
           partnerFeeWithdrawn = DecodedStream.partnerFeeWithdrawn stream,
           partnerFeePercent = n_partnerFeePercent,
           partner = toBase58 (DecodedStream.partner stream),
           partnerTokens = toBase58 (DecodedStream.partnerTokens stream),
           start = n_start,
           depositedAmount = DecodedStream.depositedAmount stream,
           period = n_period,
           amountPerPeriod = DecodedStream.amountPerPeriod stream,
           cliff = n_cliff,
           cliffAmount = DecodedStream.cliffAmount stream,
           cancelableBySender = DecodedStream.cancelableBySender stream,
           cancelableByRecipient = DecodedStream.cancelableByRecipient stream,
           automaticWithdrawal = DecodedStream.automaticWithdrawal stream,
           transferableBySender = DecodedStream.transferableBySender stream,
           transferableByRecipient = DecodedStream.transferableByRecipient stream,
           canTopup = DecodedStream.canTopup stream,
           name = DecodedStream.name stream,
           withdrawalFrequency = n_withdrawalFrequency \<rparr>))))))))))))"

text \<open>\<open>Stream.getOne\<close> on the data of the account it fetched.\<close>

definition getOne ::
  "(Buffer \<Rightarrow> 't) \<Rightarrow> (PublicKey \<Rightarrow> 's) \<Rightarrow> Buffer \<Rightarrow> error + ('s, 't) Stream" where
  "getOne decoder toBase58 data = ebind (decodeStream decoder data) (formatDecodedStream toBase58)"

section \<open>The name encoder\<close>

text \<open>
  A JavaScript string is a list of UTF-16 code units. Spreading it (\<open>[...text]\<close>) walks it
  by code point: a lead surrogate followed by a trail surrogate is one character of two
  units, every other unit is a character of its own. \<open>TextEncoder.encode\<close> writes the
  UTF-8 bytes of each code point, a surrogate that stands alone as \<open>U+FFFD\<close>.
\<close>

type_synonym js_string = "16 word list"

definition is_lead :: "16 word \<Rightarrow> bool" where
  "is_lead u = (0xD800 \<le> u \<and> u \<le> 0xDBFF)"

definition is_trail :: "16 word \<Rightarrow> bool" where
  "is_trail u = (0xDC00 \<le> u \<and> u \<le> 0xDFFF)"

fun spread :: "js_string \<Rightarrow> js_string list" where
  "spread [] = []"
| "spread [u] = [[u]]"
| "spread (u # v # us) =
     (if is_lead u \<and> is_trail v then [u, v] # spread us else [u] # spread (v # us))"

fun code_point :: "js_string \<Rightarrow> nat" where
  "code_point [u, v] = 0x10000 + (unat u - 0xD800) * 0x400 + (unat v - 0xDC00)"
| "code_point [u] = (if is_lead u \<or> is_trail u then 0xFFFD else unat u)"
| "code_point us = 0xFFFD"

definition utf8 :: "nat \<Rightarrow> Buffer" where
  "utf8 c =
     (if c < 0x80 then [of_nat c]
      else if c < 0x800 then [of_nat (0xC0 + c div 0x40), of_nat (0x80 + c mod 0x40)]
      else if c < 0x10000 then
        [of_nat (0xE0 + c div 0x1000), of_nat (0x80 + c div 0x40 mod 0x40),
         of_nat (0x80 + c mod 0x40)]
      else
        [of_nat (0xF0 + c div 0x40000), of_nat (0x80 + c div 0x1000 mod 0x40),
         of_nat (0x80 + c div 0x40 mod 0x40), of_nat (0x80 + c mod 0x40)])"

definition TextEncoder_encode :: "js_string \<Rightarrow> Buffer" where
  "TextEncoder_encode s = concat (map (\<lambda>c. utf8 (code_point c)) (spread s))"

text \<open>The loop \<open>characters.every\<close>: it stops at the first character for which the
  callback returns false.\<close>

fun every_char :: "(js_string \<Rightarrow> Buffer) \<Rightarrow> js_string list \<Rightarrow> BN list \<Rightarrow> BN list" where
  "every_char encoder [] utf8EncodedBytes = utf8EncodedBytes"
| "every_char encoder (char # chars) utf8EncodedBytes =
     (if 64 < length utf8EncodedBytes then utf8EncodedBytes
      else let encoded = encoder char
           in if 64 < length utf8EncodedBytes + length encoded then utf8EncodedBytes
              else every_char encoder chars (utf8EncodedBytes @ map uint encoded))"

text \<open>\<open>new Array(n).fill(v)\<close>: a negative length is a \<open>RangeError\<close>.\<close>

definition Array_fill :: "int \<Rightarrow> 'a \<Rightarrow> error + 'a list" where
  "Array_fill n v = (if n < 0 then Inl RangeError else Inr (replicate (nat n) v))"

definition formatStringToBytesArray :: "(js_string \<Rightarrow> Buffer) \<Rightarrow> js_string \<Rightarrow> error + BN list" where
  "formatStringToBytesArray encoder text =
     (let characters = spread text;
          utf8EncodedBytes = every_char encoder characters [];
          numberOfBytes = int (length utf8EncodedBytes)
      in ebind (Array_fill (64 - numberOfBytes) 0) (\<lambda>fill. Inr (utf8EncodedBytes @ fill)))"

section \<open>The address of the escrow account\<close>

text \<open>
  Modelled from the spec: \<open>PublicKey.findProgramAddress\<close> is code of web3.js and not in
  the repository, which only calls it in \<open>Stream.create\<close>. After section 4.3 of the
  spec: the address is derived from the seeds, the bump and the program identifier by a
  seed hash \<open>derive\<close>; the search retries with an incrementing bump, at most 256 times,
  until the address is off the curve, and fails with a \<open>DerivationError\<close> if no bump
  within the bound is valid. \<open>bump_search\<close> returns the number of derivations it made
  with its result.
\<close>

function bump_search ::
  "(Buffer list \<Rightarrow> 'p \<Rightarrow> 'a) \<Rightarrow> ('a \<Rightarrow> bool) \<Rightarrow> Buffer list \<Rightarrow> 'p \<Rightarrow> nat
     \<Rightarrow> nat \<times> (error + 'a \<times> nat)" where
  "bump_search derive on_curve seeds programId bump =
     (if 256 \<le> bump then (0, Inl DerivationError)
      else let address = derive (seeds @ [[of_nat bump]]) programId
           in if on_curve address
              then (case bump_search derive on_curve seeds programId (bump + 1)
                    of (n, r) \<Rightarrow> (Suc n, r))
              else (1, Inr (address, bump)))"
  by pat_completeness auto
termination
  by (relation "measure (\<lambda>(derive, on_curve, seeds, programId, bump). 256 - bump)") auto

definition findProgramAddress ::
  "(Buffer list \<Rightarrow> 'p \<Rightarrow> 'a) \<Rightarrow> ('a \<Rightarrow> bool) \<Rightarrow> Buffer list \<Rightarrow> 'p \<Rightarrow> error + 'a \<times> nat" where
  "findProgramAddress derive on_curve seeds programId =
     snd (bump_search derive on_curve seeds programId 0)"

text \<open>The seeds \<open>Stream.create\<close> passes: the bytes of \<open>"strm"\<close> and the public key of the
  fresh metadata account.\<close>

definition escrow_seeds :: "PublicKey \<Rightarrow> Buffer list" where
  "escrow_seeds metadata = [[0x73, 0x74, 0x72, 0x6D], toBuffer metadata]"

definition create_escrowTokens ::
  "(Buffer list \<Rightarrow> 'p \<Rightarrow> 'a) \<Rightarrow> ('a \<Rightarrow> bool) \<Rightarrow> PublicKey \<Rightarrow> 'p \<Rightarrow> error + 'a \<times> nat" where
  "create_escrowTokens derive on_curve metadata programId =
     findProgramAddress derive on_curve (escrow_seeds metadata) programId"

section \<open>Bytes and public keys\<close>

lemma BN_be_snoc: "BN_be (bs @ [x]) = BN_be bs * 256 + uint x"
  by (simp add: BN_be_def)

lemma BN_be_nonneg: "0 \<le> BN_be bs"
  by (induction bs rule: rev_induct) (simp_all add: BN_be_snoc BN_be_def)

lemma BN_be_less: "BN_be bs < 256 ^ length bs"
proof (induction bs rule: rev_induct)
  case Nil
  then show ?case by (simp add: BN_be_def)
next
  case (snoc x xs)
  have "uint x < 256" using uint_bounded [of x] by simp
  with snoc show ?case by (simp add: BN_be_snoc)
qed

lemma bitlen_le: "x < 2 ^ n \<Longrightarrow> bitlen x \<le> int n"
proof (cases "0 < x")
  case True
  assume "x < 2 ^ n"
  with bitlen_bounds [OF True] have "(2::int) ^ nat (bitlen x - 1) < 2 ^ n" by linarith
  then have "nat (bitlen x - 1) < n" by simp
  then show ?thesis by linarith
next
  case False
  then show ?thesis by (simp add: bitlen_alt_def)
qed

lemma new_PublicKey_ok:
  assumes "length v \<le> 32"
  shows "new_PublicKey v = Inr (PublicKey (BN_be v))"
proof -
  have "BN_be v < 256 ^ length v" by (rule BN_be_less)
  also have "(256::int) ^ length v \<le> 256 ^ 32" using assms by (intro power_increasing) simp_all
  also have "(256::int) ^ 32 = 2 ^ 256" by simp
  finally have "bitlen (BN_be v) \<le> 256" using bitlen_le [of "BN_be v" 256] by simp
  then have "byteLength (BN_be v) \<le> 32" by (simp add: byteLength_def)
  then show ?thesis by (simp add: new_PublicKey_def)
qed

lemma length_slice: "length (slice b s (s + n)) \<le> n"
  by (simp add: slice_def)

lemma BN_be_zero_iff: "BN_be bs = 0 \<longleftrightarrow> (\<forall>x\<in>set bs. x = 0)"
proof (induction bs rule: rev_induct)
  case Nil
  then show ?case by (simp add: BN_be_def)
next
  case (snoc x xs)
  have "0 \<le> uint x" by simp
  moreover have "0 \<le> BN_be xs" by (rule BN_be_nonneg)
  ultimately have "BN_be xs * 256 + uint x = 0 \<longleftrightarrow> BN_be xs = 0 \<and> uint x = 0" by linarith
  with snoc show ?case by (auto simp: BN_be_snoc uint_0_iff)
qed


lemma BN_toArray_BN_be:
  "BN_toArray (nat (BN_be bs)) = (if strip bs = [] then [0] else strip bs)"
proof (induction bs rule: rev_induct)
  case Nil
  then show ?case by (simp add: BN_be_def strip_def)
next
  case (snoc x xs)
  have ux: "nat (uint x) = unat x" by simp
  have xlt: "unat x < 256" using unsigned_less [of x, where ?'a = nat] by simp
  have nn: "0 \<le> BN_be xs" by (rule BN_be_nonneg)
  have n: "nat (BN_be (xs @ [x])) = nat (BN_be xs) * 256 + unat x"
    using nn by (simp add: BN_be_snoc nat_add_distrib nat_mult_distrib)
  show ?case
  proof (cases "BN_be xs = 0")
    case True
    then have z: "\<forall>y\<in>set xs. y = 0" by (simp add: BN_be_zero_iff)
    then have "strip (xs @ [x]) = (if x = 0 then [] else [x])"
      by (simp add: strip_def dropWhile_append)
    moreover have "BN_toArray (nat (BN_be (xs @ [x]))) = [x]"
      using True xlt by (simp add: n)
    ultimately show ?thesis by simp
  next
    case False
    then have nz: "\<not> (\<forall>y\<in>set xs. y = 0)" by (simp add: BN_be_zero_iff)
    then have s: "strip (xs @ [x]) = strip xs @ [x]" and ne: "strip xs \<noteq> []"
      by (auto simp: strip_def dropWhile_append)
    from False nn have "0 < nat (BN_be xs)" by simp
    then have big: "\<not> nat (BN_be xs) * 256 + unat x < 256" by simp
    have "BN_toArray (nat (BN_be (xs @ [x]))) = BN_toArray (nat (BN_be xs)) @ [x]"
      unfolding n using big xlt by (subst BN_toArray.simps) simp
    with snoc s ne show ?thesis by simp
  qed
qed

lemma strip_pad: "replicate (length bs - length (strip bs)) 0 @ strip bs = bs"
  unfolding strip_def by (induction bs) (auto simp: Suc_diff_le length_dropWhile_le)

lemma toBuffer_new:
  assumes "length v = 32"
  shows "toBuffer (PublicKey (BN_be v)) = v"
proof (cases "strip v = []")
  case True
  then have "\<forall>x\<in>set v. x = 0" by (simp add: strip_def dropWhile_eq_Nil_conv)
  then have "v = replicate 32 0" using assms by (metis replicate_eqI)
  moreover have "replicate 31 (0::byte) @ [0] = replicate 32 0"
    unfolding replicate_append_same by (simp flip: replicate_Suc)
  ultimately show ?thesis using True by (simp add: toBuffer_def BN_toArray_BN_be del: BN_toArray.simps)
next
  case False
  have "length (strip v) \<le> 32" using assms unfolding strip_def by (metis length_dropWhile_le)
  have pad: "replicate (32 - length (strip v)) 0 @ strip v = v"
    using strip_pad [of v] assms by simp
  have "toBuffer (PublicKey (BN_be v)) =
      (if length (strip v) = 32 then strip v else replicate (32 - length (strip v)) 0 @ strip v)"
    using False by (simp add: toBuffer_def BN_toArray_BN_be Let_def del: BN_toArray.simps)
  also have "\<dots> = v"
  proof (cases "length (strip v) = 32")
    case True
    with pad show ?thesis by simp
  next
    case False
    with pad show ?thesis by simp
  qed
  finally show ?thesis .
qed

section \<open>Decoding the layout\<close>

lemma offset_of_simps:
  "offset_of ''magic'' = 0"
  "offset_of ''version'' = 8"
  "offset_of ''created_at'' = 9"
  "offset_of ''withdrawn_amount'' = 17"
  "offset_of ''canceled_at'' = 25"
  "offset_of ''end_time'' = 33"
  "offset_of ''last_withdrawn_at'' = 41"
  "offset_of ''sender'' = 49"
  "offset_of ''sender_tokens'' = 81"
  "offset_of ''recipient'' = 113"
  "offset_of ''recipient_tokens'' = 145"
  "offset_of ''mint'' = 177"
  "offset_of ''escrow_tokens'' = 209"
  "offset_of ''streamdao_treasury'' = 241"
  "offset_of ''streamdao_treasury_tokens'' = 273"
  "offset_of ''streamdao_fee_total'' = 305"
  "offset_of ''streamdao_fee_withdrawn'' = 313"
  "offset_of ''streamdao_fee_percent'' = 321"
  "offset_of ''partner'' = 325"
  "offset_of ''partner_tokens'' = 357"
  "offset_of ''partner_fee_total'' = 389"
  "offset_of ''partner_fee_withdrawn'' = 397"
  "offset_of ''partner_fee_percent'' = 405"
  "offset_of ''start_time'' = 409"
  "offset_of ''net_deposited_amount'' = 417"
  "offset_of ''period'' = 425"
  "offset_of ''amount_per_period'' = 433"
  "offset_of ''cliff'' = 441"
  "offset_of ''cliff_amount'' = 449"
  "offset_of ''cancelable_by_sender'' = 457"
  "offset_of ''cancelable_by_recipient'' = 458"
  "offset_of ''automatic_withdrawal'' = 459"
  "offset_of ''transferable_by_sender'' = 460"
  "offset_of ''transferable_by_recipient'' = 461"
  "offset_of ''can_topup'' = 462"
  "offset_of ''stream_name'' = 463"
  "offset_of ''withdraw_frequency'' = 527"
  by (simp_all add: offset_of_def TokenStreamDataLayout_def)

lemma ebind_Inr_iff: "ebind m f = Inr y \<longleftrightarrow> (\<exists>x. m = Inr x \<and> f x = Inr y)"
  by (cases m) (simp_all add: ebind_def)

lemma struct_decode_other:
  "struct_decode fds b off dest = Inr raw \<Longrightarrow> p \<notin> property ` set fds \<Longrightarrow> raw p = dest p"
proof (induction fds arbitrary: off dest)
  case Nil
  then show ?case by simp
next
  case (Cons fd fds)
  from Cons.prems(1) obtain v where
    "struct_decode fds b (off + span fd) (dest(property fd \<mapsto> v)) = Inr raw"
    by (auto simp: ebind_Inr_iff)
  from Cons.IH [OF this] Cons.prems(2) show ?case by simp
qed

text \<open>Each field is decoded at the sum of the spans of the fields before it.\<close>

lemma struct_decode_field:
  assumes "struct_decode fds b off dest = Inr raw"
    and "distinct (map property fds)"
    and "fd \<in> set fds"
  shows "\<exists>v. Layout_decode fd b
            (off + sum_list (map span (takeWhile (\<lambda>g. property g \<noteq> property fd) fds))) = Inr v
          \<and> raw (property fd) = Some v"
  using assms
proof (induction fds arbitrary: off dest)
  case Nil
  then show ?case by simp
next
  case (Cons g fds)
  from Cons.prems(1) obtain v where
    v: "Layout_decode g b off = Inr v"
    and rest: "struct_decode fds b (off + span g) (dest(property g \<mapsto> v)) = Inr raw"
    by (auto simp: ebind_Inr_iff)
  from Cons.prems(2) have fresh: "property g \<notin> property ` set fds" and d: "distinct (map property fds)"
    by simp_all
  show ?case
  proof (cases "fd = g")
    case True
    from struct_decode_other [OF rest fresh] have "raw (property g) = Some v" by simp
    with v True show ?thesis by simp
  next
    case False
    with Cons.prems(3) have m: "fd \<in> set fds" by simp
    with fresh have "property g \<noteq> property fd" by auto
    with Cons.IH [OF rest d m] show ?thesis by (simp add: add.assoc)
  qed
qed

lemma distinct_TokenStreamDataLayout: "distinct (map property TokenStreamDataLayout)"
  by (simp add: TokenStreamDataLayout_def)

lemma raw_blob:
  assumes "struct_decode TokenStreamDataLayout buf 0 Map.empty = Inr raw"
    and "blob n p \<in> set TokenStreamDataLayout"
  shows "blob_of raw p = field buf p n"
  using struct_decode_field [OF assms(1) distinct_TokenStreamDataLayout assms(2)]
  by (auto simp: blob_of_def field_def offset_of_def slice_def)

lemma raw_u8:
  assumes "struct_decode TokenStreamDataLayout buf 0 Map.empty = Inr raw"
    and "u8 p \<in> set TokenStreamDataLayout"
  shows "uint_of raw p = unat (buf ! offset_of p)"
  using struct_decode_field [OF assms(1) distinct_TokenStreamDataLayout assms(2)]
  by (auto simp: uint_of_def offset_of_def readUInt8_def ebind_Inr_iff split: if_splits)

lemma struct_decode_Inr:
  assumes "463 \<le> length buf"
  shows "\<exists>raw. struct_decode TokenStreamDataLayout buf 0 Map.empty = Inr raw"
  using assms by (simp add: TokenStreamDataLayout_def ebind_def readUInt8_def)

lemma layout_mem:
  "blob 8 ''magic'' \<in> set TokenStreamDataLayout"
  "blob 1 ''version'' \<in> set TokenStreamDataLayout"
  "blob 8 ''created_at'' \<in> set TokenStreamDataLayout"
  "blob 8 ''withdrawn_amount'' \<in> set TokenStreamDataLayout"
  "blob 8 ''canceled_at'' \<in> set TokenStreamDataLayout"
  "blob 8 ''end_time'' \<in> set TokenStreamDataLayout"
  "blob 8 ''last_withdrawn_at'' \<in> set TokenStreamDataLayout"
  "blob 32 ''sender'' \<in> set TokenStreamDataLayout"
  "blob 32 ''sender_tokens'' \<in> set TokenStreamDataLayout"
  "blob 32 ''recipient'' \<in> set TokenStreamDataLayout"
  "blob 32 ''recipient_tokens'' \<in> set TokenStreamDataLayout"
  "blob 32 ''mint'' \<in> set TokenStreamDataLayout"
  "blob 32 ''escrow_tokens'' \<in> set TokenStreamDataLayout"
  "blob 32 ''streamdao_treasury'' \<in> set TokenStreamDataLayout"
  "blob 32 ''streamdao_treasury_tokens'' \<in> set TokenStreamDataLayout"
  "blob 8 ''streamdao_fee_total'' \<in> set TokenStreamDataLayout"
  "blob 8 ''streamdao_fee_withdrawn'' \<in> set TokenStreamDataLayout"
  "blob 4 ''streamdao_fee_percent'' \<in> set TokenStreamDataLayout"
  "blob 32 ''partner'' \<in> set TokenStreamDataLayout"
  "blob 32 ''partner_tokens'' \<in> set TokenStreamDataLayout"
  "blob 8 ''partner_fee_total'' \<in> set TokenStreamDataLayout"
  "blob 8 ''partner_fee_withdrawn'' \<in> set TokenStreamDataLayout"
  "blob 4 ''partner_fee_percent'' \<in> set TokenStreamDataLayout"
  "blob 8 ''start_time'' \<in> set TokenStreamDataLayout"
  "blob 8 ''net_deposited_amount'' \<in> set TokenStreamDataLayout"
  "blob 8 ''period'' \<in> set TokenStreamDataLayout"
  "blob 8 ''amount_per_period'' \<in> set TokenStreamDataLayout"
  "blob 8 ''cliff'' \<in> set TokenStreamDataLayout"
  "blob 8 ''cliff_amount'' \<in> set TokenStreamDataLayout"
  "u8 ''cancelable_by_sender'' \<in> set TokenStreamDataLayout"
  "u8 ''cancelable_by_recipient'' \<in> set TokenStreamDataLayout"
  "u8 ''automatic_withdrawal'' \<in> set TokenStreamDataLayout"
  "u8 ''transferable_by_sender'' \<in> set TokenStreamDataLayout"
  "u8 ''transferable_by_recipient'' \<in> set TokenStreamDataLayout"
  "u8 ''can_topup'' \<in> set TokenStreamDataLayout"
  "blob 64 ''stream_name'' \<in> set TokenStreamDataLayout"
  "blob 8 ''withdraw_frequency'' \<in> set TokenStreamDataLayout"
  by (simp_all add: TokenStreamDataLayout_def)

lemma new_PublicKey_field: "new_PublicKey (field buf p 32) = Inr (PublicKey (BN_be (field buf p 32)))"
  by (rule new_PublicKey_ok) (simp add: field_def)

lemma decodeStream_Inr:
  assumes "463 \<le> length buf"
  shows "decodeStream decoder buf = Inr
    \<lparr> DecodedStream.magic = BN_le (field buf ''magic'' 8),
      DecodedStream.version = BN_le (field buf ''version'' 1),
      DecodedStream.createdAt = BN_le (field buf ''created_at'' 8),
      DecodedStream.withdrawnAmount = BN_le (field buf ''withdrawn_amount'' 8),
      DecodedStream.canceledAt = BN_le (field buf ''canceled_at'' 8),
      DecodedStream.end' = BN_le (field buf ''end_time'' 8),
      DecodedStream.lastWithdrawnAt = BN_le (field buf ''last_withdrawn_at'' 8),
      DecodedStream.sender = PublicKey (BN_be (field buf ''sender'' 32)),
      DecodedStream.senderTokens = PublicKey (BN_be (field buf ''sender_tokens'' 32)),
      DecodedStream.recipient = PublicKey (BN_be (field buf ''recipient'' 32)),
      DecodedStream.recipientTokens = PublicKey (BN_be (field buf ''recipient_tokens'' 32)),
      DecodedStream.mint = PublicKey (BN_be (field buf ''mint'' 32)),
      DecodedStream.escrowTokens = PublicKey (BN_be (field buf ''escrow_tokens'' 32)),
      DecodedStream.streamdaoTreasury = PublicKey (BN_be (field buf ''streamdao_treasury'' 32)),
      DecodedStream.streamdaoTreasuryTokens = PublicKey (BN_be (field buf ''streamdao_treasury_tokens'' 32)),
      DecodedStream.streamdaoFeeTotal = BN_le (field buf ''streamdao_fee_total'' 8),
      DecodedStream.streamdaoFeeWithdrawn = BN_le (field buf ''streamdao_fee_withdrawn'' 8),
      DecodedStream.streamdaoFeePercent = BN_le (field buf ''streamdao_fee_percent'' 4),
      DecodedStream.partnerFeeTotal = BN_le (field buf ''partner_fee_total'' 8),
      DecodedStream.partnerFeeWithdrawn = BN_le (field buf ''partner_fee_withdrawn'' 8),
      DecodedStream.partnerFeePercent = BN_le (field buf ''partner_fee_percent'' 4),
      DecodedStream.partner = PublicKey (BN_be (field buf ''partner'' 32)),
      DecodedStream.partnerTokens = PublicKey (BN_be (field buf ''partner_tokens'' 32)),
      DecodedStream.start = BN_le (field buf ''start_time'' 8),
      DecodedStream.depositedAmount = BN_le (field buf ''net_deposited_amount'' 8),
      DecodedStream.period = BN_le (field buf ''period'' 8),
      DecodedStream.amountPerPeriod = BN_le (field buf ''amount_per_period'' 8),
      DecodedStream.cliff = BN_le (field buf ''cliff'' 8),
      DecodedStream.cliffAmount = BN_le (field buf ''cliff_amount'' 8),
      DecodedStream.cancelableBySender = Boolean (unat (buf ! offset_of ''cancelable_by_sender'')),
      DecodedStream.cancelableByRecipient = Boolean (unat (buf ! offset_of ''cancelable_by_recipient'')),
      DecodedStream.automaticWithdrawal = Boolean (unat (buf ! offset_of ''automatic_withdrawal'')),
      DecodedStream.transferableBySender = Boolean (unat (buf ! offset_of ''transferable_by_sender'')),
      DecodedStream.transferableByRecipient = Boolean (unat (buf ! offset_of ''transferable_by_recipient'')),
      DecodedStream.canTopup = Boolean (unat (buf ! offset_of ''can_topup'')),
      DecodedStream.name = decoder (field buf ''stream_name'' 64),
      DecodedStream.withdrawalFrequency = BN_le (field buf ''withdraw_frequency'' 8) \<rparr>"
proof -
  from struct_decode_Inr [OF assms] obtain raw where
    r: "struct_decode TokenStreamDataLayout buf 0 Map.empty = Inr raw" ..
  note b = raw_blob [OF r] and u = raw_u8 [OF r]
  show ?thesis
    by (simp add: decodeStream_def r ebind_def new_PublicKey_field
        b [OF layout_mem(1)] b [OF layout_mem(2)] b [OF layout_mem(3)] b [OF layout_mem(4)]
        b [OF layout_mem(5)] b [OF layout_mem(6)] b [OF layout_mem(7)] b [OF layout_mem(8)]
        b [OF layout_mem(9)] b [OF layout_mem(10)] b [OF layout_mem(11)] b [OF layout_mem(12)]
        b [OF layout_mem(13)] b [OF layout_mem(14)] b [OF layout_mem(15)] b [OF layout_mem(16)]
        b [OF layout_mem(17)] b [OF layout_mem(18)] b [OF layout_mem(19)] b [OF layout_mem(20)]
        b [OF layout_mem(21)] b [OF layout_mem(22)] b [OF layout_mem(23)] b [OF layout_mem(24)]
        b [OF layout_mem(25)] b [OF layout_mem(26)] b [OF layout_mem(27)] b [OF layout_mem(28)]
        b [OF layout_mem(29)] u [OF layout_mem(30)] u [OF layout_mem(31)] u [OF layout_mem(32)]
        u [OF layout_mem(33)] u [OF layout_mem(34)] u [OF layout_mem(35)] b [OF layout_mem(36)]
        b [OF layout_mem(37)])
qed

lemma decodeStream_Inl:
  assumes "length buf < 463"
  shows "decodeStream decoder buf = Inl RangeError"
  using assms
  by (simp add: decodeStream_def TokenStreamDataLayout_def ebind_def readUInt8_def)

text \<open>
  C1. In the layout the sender field is the 32 bytes from offset 49 and the recipient
  field the 32 bytes from offset 113; the two constants of the account filters,
  \<open>STREAM_STRUCT_OFFSET_SENDER\<close> and \<open>STREAM_STRUCT_OFFSET_RECIPIENT\<close>, are these
  offsets; and for every buffer of at least 535 bytes the bytes of the decoded sender
  are the 32 bytes of the input at offset 49, and those of the decoded recipient the 32
  bytes at offset 113.
\<close>

theorem sender_recipient_offsets:
  "blob 32 ''sender'' \<in> set TokenStreamDataLayout
   \<and> blob 32 ''recipient'' \<in> set TokenStreamDataLayout
   \<and> offset_of ''sender'' = 49 \<and> offset_of ''recipient'' = 113
   \<and> STREAM_STRUCT_OFFSET_SENDER = offset_of ''sender''
   \<and> STREAM_STRUCT_OFFSET_RECIPIENT = offset_of ''recipient''
   \<and> (535 \<le> length buf \<longrightarrow>
        (\<exists>s. decodeStream decoder buf = Inr s
           \<and> toBuffer (DecodedStream.sender s) = take 32 (drop STREAM_STRUCT_OFFSET_SENDER buf)
           \<and> toBuffer (DecodedStream.recipient s)
               = take 32 (drop STREAM_STRUCT_OFFSET_RECIPIENT buf)))"
proof -
  have "toBuffer (PublicKey (BN_be (field buf p 32))) = field buf p 32"
    if "535 \<le> length buf" and "offset_of p \<le> 500" for p
    using that by (intro toBuffer_new) (simp add: field_def)
  then show ?thesis
    by (simp add: layout_mem offset_of_simps STREAM_STRUCT_OFFSET_SENDER_def
        STREAM_STRUCT_OFFSET_RECIPIENT_def decodeStream_Inr)
      (simp add: field_def offset_of_simps)
qed

theorem sender_recipient_offsets_witness:
  "535 \<le> length (replicate 535 (0::byte))
   \<and> (\<exists>s. decodeStream id (replicate 535 0) = Inr s
        \<and> toBuffer (DecodedStream.sender s) = replicate 32 0
        \<and> toBuffer (DecodedStream.recipient s) = replicate 32 0)"
  using sender_recipient_offsets [of "replicate 535 0" id]
  by (simp add: STREAM_STRUCT_OFFSET_SENDER_def STREAM_STRUCT_OFFSET_RECIPIENT_def)

lemma unsigned_le_0: "unsigned_le buf off 0 = 0"
  by (simp add: unsigned_le_def)

lemma unsigned_le_Suc:
  "unsigned_le buf off (Suc w) = uint (buf ! off) + 256 * unsigned_le buf (Suc off) w"
proof -
  have "[0..<Suc w] = 0 # map Suc [0..<w]" by (simp add: upt_conv_Cons map_Suc_upt del: upt_Suc)
  then have "unsigned_le buf off (Suc w)
      = uint (buf ! off) + (\<Sum>i\<leftarrow>[0..<w]. 256 * (uint (buf ! (Suc off + i)) * 256 ^ i))"
    unfolding unsigned_le_def by (simp add: comp_def mult.assoc mult.left_commute del: upt_Suc)
  then show ?thesis by (simp add: unsigned_le_def sum_list_const_mult)
qed

lemma BN_le_take_drop:
  "off + w \<le> length buf \<Longrightarrow> BN_le (take w (drop off buf)) = unsigned_le buf off w"
proof (induction w arbitrary: off)
  case 0
  then show ?case by (simp add: unsigned_le_def)
next
  case (Suc w)
  then have lt: "off < length buf" by simp
  then have "take (Suc w) (drop off buf) = buf ! off # take w (drop (Suc off) buf)"
    by (simp add: take_Suc_conv_app_nth Cons_nth_drop_Suc [symmetric])
  moreover from Suc.prems have "Suc off + w \<le> length buf" by simp
  ultimately show ?case by (simp add: Suc.IH unsigned_le_Suc)
qed

lemma BN_le_field:
  assumes "535 \<le> length buf" and "offset_of p + w \<le> 535"
  shows "BN_le (field buf p w) = unsigned_le buf (offset_of p) w"
  unfolding field_def using assms by (intro BN_le_take_drop) simp

lemma toBuffer_field:
  assumes "535 \<le> length buf" and "offset_of p + 32 \<le> 535"
  shows "toBuffer (PublicKey (BN_be (field buf p 32))) = field buf p 32"
  using assms by (intro toBuffer_new) (simp add: field_def)

lemma unsigned_le_explicit:
  "unsigned_le buf off (Suc 0) = uint (buf ! off)"
  "unsigned_le buf off 1 = uint (buf ! off)"
  "unsigned_le buf off 4 = uint (buf ! off) + 256 * (uint (buf ! (off + 1))
      + 256 * (uint (buf ! (off + 2)) + 256 * uint (buf ! (off + 3))))"
  "unsigned_le buf off 8 = uint (buf ! off) + 256 * (uint (buf ! (off + 1))
      + 256 * (uint (buf ! (off + 2)) + 256 * (uint (buf ! (off + 3))
      + 256 * (uint (buf ! (off + 4)) + 256 * (uint (buf ! (off + 5))
      + 256 * (uint (buf ! (off + 6)) + 256 * uint (buf ! (off + 7))))))))"
  by (simp_all add: eval_nat_numeral unsigned_le_Suc unsigned_le_0)

lemma table_matches_layout:
  "list_all (\<lambda>fd. map_of section3_table (property fd) = Some (span fd)) TokenStreamDataLayout
   \<and> length section3_table = length TokenStreamDataLayout"
  by (simp add: section3_table_def TokenStreamDataLayout_def)

lemma layout_offsets:
  "map (\<lambda>fd. offset_of (property fd)) TokenStreamDataLayout =
    [0, 8, 9, 17, 25, 33, 41, 49, 81, 113, 145, 177, 209, 241, 273, 305, 313, 321, 325, 357, 389, 397, 405, 409, 417, 425, 433, 441, 449, 457, 458, 459, 460, 461, 462, 463, 527]"
  by (simp add: TokenStreamDataLayout_def offset_of_simps)

text \<open>
  C2 does not hold as the specification words it: the table of section 3 groups the
  fields by kind, and its order is not the order of the record. In the order of the
  table \<open>canceledAt\<close> would start at byte 17; \<open>decodeStream\<close> reads it from byte 25, after
  \<open>withdrawn_amount\<close>. On the buffer whose byte \<open>i\<close> is \<open>i mod 256\<close> the two readings differ.
\<close>

theorem decodeStream_table_order_counterexample:
  "535 \<le> length (map of_nat [0..<535] :: Buffer)
   \<and> table_offset ''canceled_at'' = 17 \<and> offset_of ''canceled_at'' = 25
   \<and> unsigned_le (map of_nat [0..<535]) (table_offset ''canceled_at'') 8 = 1735880461161533969
   \<and> map_sum id DecodedStream.canceledAt (decodeStream id (map of_nat [0..<535]))
       = Inr 2314601843866147353"
proof -
  have t: "table_offset ''canceled_at'' = 17"
    by (simp add: table_offset_def section3_table_def)
  have l: "535 \<le> length (map of_nat [0..<535] :: Buffer)" by simp
  then have "463 \<le> length (map of_nat [0..<535] :: Buffer)" by simp
  from decodeStream_Inr [OF this, of id]
  have "map_sum id DecodedStream.canceledAt (decodeStream id (map of_nat [0..<535]))
      = Inr (BN_le (field (map of_nat [0..<535]) ''canceled_at'' 8))" by simp
  also have "BN_le (field (map of_nat [0..<535]) ''canceled_at'' 8)
      = unsigned_le (map of_nat [0..<535]) (offset_of ''canceled_at'') 8"
    using l by (rule BN_le_field) (simp add: offset_of_simps)
  also have "\<dots> = 2314601843866147353"
    by (simp add: offset_of_simps unsigned_le_explicit)
  finally have d: "map_sum id DecodedStream.canceledAt (decodeStream id (map of_nat [0..<535]))
      = Inr 2314601843866147353" .
  have "unsigned_le (map of_nat [0..<535] :: Buffer) 17 8 = 1735880461161533969"
    by (simp add: unsigned_le_explicit)
  with t d l show ?thesis by (simp add: offset_of_simps)
qed

text \<open>
  C2, as the code has it. For every buffer of at least 535 bytes, \<open>decodeStream\<close> reads
  each field at the offset that is the sum of the widths of the fields before it in the
  field table of the codec, \<open>TokenStreamDataLayout\<close>: 0 for the magic, 8 for the version, 9,
  17, 25, 33 and 41 for the five 8-byte fields that follow, 49 for the sender, and so on.
  The widths are those of the table of section 3: 8 bytes for the magic, the timestamps
  and the amounts, 1 byte for the version and for each flag, 32 bytes for each identifier,
  4 bytes for each fee percent, 64 bytes for the name. Every integer is the unsigned
  little-endian value of its bytes, every identifier is its 32 bytes, and the widths sum
  to 535.
\<close>

theorem decodeStream_reads_layout:
  assumes "535 \<le> length buf"
  shows "sum_list (map span TokenStreamDataLayout) = 535
    \<and> list_all (\<lambda>fd. map_of section3_table (property fd) = Some (span fd)) TokenStreamDataLayout
    \<and> length section3_table = length TokenStreamDataLayout
    \<and> map (\<lambda>fd. offset_of (property fd)) TokenStreamDataLayout =
    [0, 8, 9, 17, 25, 33, 41, 49, 81, 113, 145, 177, 209, 241, 273, 305, 313, 321, 325, 357, 389, 397, 405, 409, 417, 425, 433, 441, 449, 457, 458, 459, 460, 461, 462, 463, 527]
    \<and> (\<exists>s. decodeStream decoder buf = Inr s
       \<and> DecodedStream.magic s = unsigned_le buf (offset_of ''magic'') 8
       \<and> DecodedStream.version s = unsigned_le buf (offset_of ''version'') 1
       \<and> DecodedStream.createdAt s = unsigned_le buf (offset_of ''created_at'') 8
       \<and> DecodedStream.withdrawnAmount s = unsigned_le buf (offset_of ''withdrawn_amount'') 8
       \<and> DecodedStream.canceledAt s = unsigned_le buf (offset_of ''canceled_at'') 8
       \<and> DecodedStream.end' s = unsigned_le buf (offset_of ''end_time'') 8
       \<and> DecodedStream.lastWithdrawnAt s = unsigned_le buf (offset_of ''last_withdrawn_at'') 8
       \<and> toBuffer (DecodedStream.sender s) = field buf ''sender'' 32
       \<and> toBuffer (DecodedStream.senderTokens s) = field buf ''sender_tokens'' 32
       \<and> toBuffer (DecodedStream.recipient s) = field buf ''recipient'' 32
       \<and> toBuffer (DecodedStream.recipientTokens s) = field buf ''recipient_tokens'' 32
       \<and> toBuffer (DecodedStream.mint s) = field buf ''mint'' 32
       \<and> toBuffer (DecodedStream.escrowTokens s) = field buf ''escrow_tokens'' 32
       \<and> toBuffer (DecodedStream.streamdaoTreasury s) = field buf ''streamdao_treasury'' 32
       \<and> toBuffer (DecodedStream.streamdaoTreasuryTokens s) = field buf ''streamdao_treasury_tokens'' 32
       \<and> DecodedStream.streamdaoFeeTotal s = unsigned_le buf (offset_of ''streamdao_fee_total'') 8
       \<and> DecodedStream.streamdaoFeeWithdrawn s = unsigned_le buf (offset_of ''streamdao_fee_withdrawn'') 8
       \<and> DecodedStream.streamdaoFeePercent s = unsigned_le buf (offset_of ''streamdao_fee_percent'') 4
       \<and> DecodedStream.partnerFeeTotal s = unsigned_le buf (offset_of ''partner_fee_total'') 8
       \<and> DecodedStream.partnerFeeWithdrawn s = unsigned_le buf (offset_of ''partner_fee_withdrawn'') 8
       \<and> DecodedStream.partnerFeePercent s = unsigned_le buf (offset_of ''partner_fee_percent'') 4
       \<and> toBuffer (DecodedStream.partner s) = field buf ''partner'' 32
       \<and> toBuffer (DecodedStream.partnerTokens s) = field buf ''partner_tokens'' 32
       \<and> DecodedStream.start s = unsigned_le buf (offset_of ''start_time'') 8
       \<and> DecodedStream.depositedAmount s = unsigned_le buf (offset_of ''net_deposited_amount'') 8
       \<and> DecodedStream.period s = unsigned_le buf (offset_of ''period'') 8
       \<and> DecodedStream.amountPerPeriod s = unsigned_le buf (offset_of ''amount_per_period'') 8
       \<and> DecodedStream.cliff s = unsigned_le buf (offset_of ''cliff'') 8
       \<and> DecodedStream.cliffAmount s = unsigned_le buf (offset_of ''cliff_amount'') 8
       \<and> DecodedStream.cancelableBySender s = (buf ! offset_of ''cancelable_by_sender'' \<noteq> 0)
       \<and> DecodedStream.cancelableByRecipient s = (buf ! offset_of ''cancelable_by_recipient'' \<noteq> 0)
       \<and> DecodedStream.automaticWithdrawal s = (buf ! offset_of ''automatic_withdrawal'' \<noteq> 0)
       \<and> DecodedStream.transferableBySender s = (buf ! offset_of ''transferable_by_sender'' \<noteq> 0)
       \<and> DecodedStream.transferableByRecipient s = (buf ! offset_of ''transferable_by_recipient'' \<noteq> 0)
       \<and> DecodedStream.canTopup s = (buf ! offset_of ''can_topup'' \<noteq> 0)
       \<and> DecodedStream.name s = decoder (field buf ''stream_name'' 64)
       \<and> DecodedStream.withdrawalFrequency s = unsigned_le buf (offset_of ''withdraw_frequency'') 8)"
proof -
  have "sum_list (map span TokenStreamDataLayout) = 535"
    by (simp add: TokenStreamDataLayout_def)
  moreover note table_matches_layout layout_offsets
  moreover from assms have "463 \<le> length buf" by simp
  then have "\<exists>s. decodeStream decoder buf = Inr s
       \<and> DecodedStream.magic s = unsigned_le buf (offset_of ''magic'') 8
       \<and> DecodedStream.version s = unsigned_le buf (offset_of ''version'') 1
       \<and> DecodedStream.createdAt s = unsigned_le buf (offset_of ''created_at'') 8
       \<and> DecodedStream.withdrawnAmount s = unsigned_le buf (offset_of ''withdrawn_amount'') 8
       \<and> DecodedStream.canceledAt s = unsigned_le buf (offset_of ''canceled_at'') 8
       \<and> DecodedStream.end' s = unsigned_le buf (offset_of ''end_time'') 8
       \<and> DecodedStream.lastWithdrawnAt s = unsigned_le buf (offset_of ''last_withdrawn_at'') 8
       \<and> toBuffer (DecodedStream.sender s) = field buf ''sender'' 32
       \<and> toBuffer (DecodedStream.senderTokens s) = field buf ''sender_tokens'' 32
       \<and> toBuffer (DecodedStream.recipient s) = field buf ''recipient'' 32
       \<and> toBuffer (DecodedStream.recipientTokens s) = field buf ''recipient_tokens'' 32
       \<and> toBuffer (DecodedStream.mint s) = field buf ''mint'' 32
       \<and> toBuffer (DecodedStream.escrowTokens s) = field buf ''escrow_tokens'' 32
       \<and> toBuffer (DecodedStream.streamdaoTreasury s) = field buf ''streamdao_treasury'' 32
       \<and> toBuffer (DecodedStream.streamdaoTreasuryTokens s) = field buf ''streamdao_treasury_tokens'' 32
       \<and> DecodedStream.streamdaoFeeTotal s = unsigned_le buf (offset_of ''streamdao_fee_total'') 8
       \<and> DecodedStream.streamdaoFeeWithdrawn s = unsigned_le buf (offset_of ''streamdao_fee_withdrawn'') 8
       \<and> DecodedStream.streamdaoFeePercent s = unsigned_le buf (offset_of ''streamdao_fee_percent'') 4
       \<and> DecodedStream.partnerFeeTotal s = unsigned_le buf (offset_of ''partner_fee_total'') 8
       \<and> DecodedStream.partnerFeeWithdrawn s = unsigned_le buf (offset_of ''partner_fee_withdrawn'') 8
       \<and> DecodedStream.partnerFeePercent s = unsigned_le buf (offset_of ''partner_fee_percent'') 4
       \<and> toBuffer (DecodedStream.partner s) = field buf ''partner'' 32
       \<and> toBuffer (DecodedStream.partnerTokens s) = field buf ''partner_tokens'' 32
       \<and> DecodedStream.start s = unsigned_le buf (offset_of ''start_time'') 8
       \<and> DecodedStream.depositedAmount s = unsigned_le buf (offset_of ''net_deposited_amount'') 8
       \<and> DecodedStream.period s = unsigned_le buf (offset_of ''period'') 8
       \<and> DecodedStream.amountPerPeriod s = unsigned_le buf (offset_of ''amount_per_period'') 8
       \<and> DecodedStream.cliff s = unsigned_le buf (offset_of ''cliff'') 8
       \<and> DecodedStream.cliffAmount s = unsigned_le buf (offset_of ''cliff_amount'') 8
       \<and> DecodedStream.cancelableBySender s = (buf ! offset_of ''cancelable_by_sender'' \<noteq> 0)
       \<and> DecodedStream.cancelableByRecipient s = (buf ! offset_of ''cancelable_by_recipient'' \<noteq> 0)
       \<and> DecodedStream.automaticWithdrawal s = (buf ! offset_of ''automatic_withdrawal'' \<noteq> 0)
       \<and> DecodedStream.transferableBySender s = (buf ! offset_of ''transferable_by_sender'' \<noteq> 0)
       \<and> DecodedStream.transferableByRecipient s = (buf ! offset_of ''transferable_by_recipient'' \<noteq> 0)
       \<and> DecodedStream.canTopup s = (buf ! offset_of ''can_topup'' \<noteq> 0)
       \<and> DecodedStream.name s = decoder (field buf ''stream_name'' 64)
       \<and> DecodedStream.withdrawalFrequency s = unsigned_le buf (offset_of ''withdraw_frequency'') 8"
    by (simp add: decodeStream_Inr BN_le_field [OF assms] toBuffer_field [OF assms]
        offset_of_simps Boolean_def unat_0_iff)
  ultimately show ?thesis by (simp only: simp_thms)
qed

theorem decodeStream_reads_layout_witness:
  "535 \<le> length (map of_nat [0..<535] :: Buffer)
   \<and> map_sum id DecodedStream.magic (decodeStream id (map of_nat [0..<535]))
       = Inr 506097522914230528
   \<and> map_sum id DecodedStream.version (decodeStream id (map of_nat [0..<535])) = Inr 8
   \<and> map_sum id DecodedStream.createdAt (decodeStream id (map of_nat [0..<535]))
       = Inr 1157159078456920585
   \<and> map_sum id DecodedStream.streamdaoFeePercent (decodeStream id (map of_nat [0..<535]))
       = Inr 1145258561
   \<and> map_sum id DecodedStream.start (decodeStream id (map of_nat [0..<535]))
       = Inr 11574143967139961497
   \<and> map_sum id DecodedStream.withdrawalFrequency (decodeStream id (map of_nat [0..<535]))
       = Inr 1591200115485380623
   \<and> map_sum id DecodedStream.canTopup (decodeStream id (map of_nat [0..<535])) = Inr True
   \<and> map_sum id (\<lambda>s. toBuffer (DecodedStream.sender s)) (decodeStream id (map of_nat [0..<535]))
       = Inr (map of_nat [49..<81])"
proof -
  have l: "535 \<le> length (map of_nat [0..<535] :: Buffer)" by simp
  have f: "field (map of_nat [0..<535]) ''sender'' 32 = map of_nat [49..<81]"
    by (simp add: field_def offset_of_simps take_map drop_map)
  from decodeStream_reads_layout [OF l, of id] obtain s where
    "decodeStream id (map of_nat [0..<535]) = Inr s"
    "DecodedStream.magic s = unsigned_le (map of_nat [0..<535]) (offset_of ''magic'') 8"
    "DecodedStream.version s = unsigned_le (map of_nat [0..<535]) (offset_of ''version'') 1"
    "DecodedStream.createdAt s = unsigned_le (map of_nat [0..<535]) (offset_of ''created_at'') 8"
    "DecodedStream.streamdaoFeePercent s
       = unsigned_le (map of_nat [0..<535]) (offset_of ''streamdao_fee_percent'') 4"
    "DecodedStream.start s = unsigned_le (map of_nat [0..<535]) (offset_of ''start_time'') 8"
    "DecodedStream.withdrawalFrequency s
       = unsigned_le (map of_nat [0..<535]) (offset_of ''withdraw_frequency'') 8"
    "DecodedStream.canTopup s = ((map of_nat [0..<535] :: Buffer) ! offset_of ''can_topup'' \<noteq> 0)"
    "toBuffer (DecodedStream.sender s) = field (map of_nat [0..<535]) ''sender'' 32"
    by blast
  with l f show ?thesis by (simp add: offset_of_simps unsigned_le_explicit)
qed

text \<open>
  C8 does not hold as the specification words it: a buffer of 534 bytes, shorter than the
  record, is decoded without an error.
\<close>

theorem decodeStream_short_buffer_counterexample:
  "length (replicate 534 (0::byte)) < 535 \<and> \<not> isl (decodeStream id (replicate 534 (0::byte)))"
  by (simp add: decodeStream_Inr)

text \<open>
  C8, as the code has it. \<open>decodeStream\<close> checks no length. It returns a record for
  every buffer of at least 463 bytes, so for every buffer of at least 535 bytes, and
  raises a \<open>RangeError\<close>, once and to its caller, for every buffer shorter than 463 bytes:
  there the read of a flag byte is out of range. From 463 to 534 bytes the name and the
  withdrawal frequency are read from the bytes that are there.
\<close>

theorem decodeStream_succeeds_or_RangeError:
  "(463 \<le> length buf \<longrightarrow> (\<exists>s. decodeStream decoder buf = Inr s))
   \<and> (535 \<le> length buf \<longrightarrow> (\<exists>s. decodeStream decoder buf = Inr s))
   \<and> (length buf < 463 \<longrightarrow> decodeStream decoder buf = Inl RangeError)"
  by (simp add: decodeStream_Inr decodeStream_Inl)

theorem decodeStream_succeeds_or_RangeError_witness:
  "463 \<le> length (replicate 463 (0::byte)) \<and> (\<exists>s. decodeStream id (replicate 463 (0::byte)) = Inr s)
   \<and> 535 \<le> length (replicate 535 (0::byte)) \<and> (\<exists>s. decodeStream id (replicate 535 (0::byte)) = Inr s)
   \<and> length (replicate 462 (0::byte)) < 463 \<and> decodeStream id (replicate 462 (0::byte)) = Inl RangeError"
  using decodeStream_succeeds_or_RangeError [of "replicate 463 0" id]
    decodeStream_succeeds_or_RangeError [of "replicate 535 0" id]
    decodeStream_succeeds_or_RangeError [of "replicate 462 0" id]
  by simp

section \<open>Formatting a decoded record\<close>

lemma BN_le_nonneg: "0 \<le> BN_le bs"
  by (induction bs) simp_all

lemma ebind_toNumber_Inl:
  "(ebind (toNumber a) f = Inl AssertionError) = (2 ^ 53 \<le> \<bar>a\<bar> \<or> f (of_int a) = Inl AssertionError)"
  by (simp add: ebind_def toNumber_def)

lemma formatDecodedStream_Inl_iff:
  "formatDecodedStream toBase58 s = Inl AssertionError \<longleftrightarrow>
     2 ^ 53 \<le> \<bar>DecodedStream.magic s\<bar> \<or> 2 ^ 53 \<le> \<bar>DecodedStream.version s\<bar>
     \<or> 2 ^ 53 \<le> \<bar>DecodedStream.createdAt s\<bar> \<or> 2 ^ 53 \<le> \<bar>DecodedStream.canceledAt s\<bar>
     \<or> 2 ^ 53 \<le> \<bar>DecodedStream.end' s\<bar> \<or> 2 ^ 53 \<le> \<bar>DecodedStream.lastWithdrawnAt s\<bar>
     \<or> 2 ^ 53 \<le> \<bar>DecodedStream.streamdaoFeePercent s\<bar>
     \<or> 2 ^ 53 \<le> \<bar>DecodedStream.partnerFeePercent s\<bar>
     \<or> 2 ^ 53 \<le> \<bar>DecodedStream.start s\<bar> \<or> 2 ^ 53 \<le> \<bar>DecodedStream.period s\<bar>
     \<or> 2 ^ 53 \<le> \<bar>DecodedStream.cliff s\<bar> \<or> 2 ^ 53 \<le> \<bar>DecodedStream.withdrawalFrequency s\<bar>"
  unfolding formatDecodedStream_def
  by (simp only: ebind_toNumber_Inl sum.distinct simp_thms)

lemma abs_ge_iff: "0 \<le> x \<Longrightarrow> (2 ^ 53 \<le> \<bar>x\<bar>) = (2 ^ 53 - 1 < x)" for x :: int
  by auto

lemma decodeStream_nonneg:
  assumes "463 \<le> length buf"
  shows "\<exists>s. decodeStream decoder buf = Inr s
     \<and> DecodedStream.magic s = BN_le (field buf ''magic'' 8)
     \<and> 0 \<le> DecodedStream.magic s \<and> 0 \<le> DecodedStream.version s
     \<and> 0 \<le> DecodedStream.createdAt s \<and> 0 \<le> DecodedStream.canceledAt s
     \<and> 0 \<le> DecodedStream.end' s \<and> 0 \<le> DecodedStream.lastWithdrawnAt s
     \<and> 0 \<le> DecodedStream.streamdaoFeePercent s \<and> 0 \<le> DecodedStream.partnerFeePercent s
     \<and> 0 \<le> DecodedStream.start s \<and> 0 \<le> DecodedStream.period s
     \<and> 0 \<le> DecodedStream.cliff s \<and> 0 \<le> DecodedStream.withdrawalFrequency s"
  by (simp add: decodeStream_Inr [OF assms] BN_le_nonneg)

text \<open>
  C10. Formatting is partial on records that decode. There is a buffer of 535 bytes that
  \<open>decodeStream\<close> decodes and on which \<open>formatDecodedStream\<close>, and so \<open>getOne\<close>, raises; and
  for every buffer of at least 535 bytes the record decodes and formatting raises exactly
  when one of the fields it converts with \<open>toNumber\<close> is above \<open>2 ^ 53 - 1\<close>.
\<close>

theorem formatDecodedStream_partial:
  "(\<exists>b s. length b = 535 \<and> decodeStream decoder b = Inr s
       \<and> formatDecodedStream toBase58 s = Inl AssertionError
       \<and> getOne decoder toBase58 b = Inl AssertionError)
   \<and> (535 \<le> length buf \<longrightarrow>
       (\<exists>s. decodeStream decoder buf = Inr s
          \<and> (formatDecodedStream toBase58 s = Inl AssertionError \<longleftrightarrow>
               2 ^ 53 - 1 < DecodedStream.magic s \<or> 2 ^ 53 - 1 < DecodedStream.version s
               \<or> 2 ^ 53 - 1 < DecodedStream.createdAt s \<or> 2 ^ 53 - 1 < DecodedStream.canceledAt s
               \<or> 2 ^ 53 - 1 < DecodedStream.end' s \<or> 2 ^ 53 - 1 < DecodedStream.lastWithdrawnAt s
               \<or> 2 ^ 53 - 1 < DecodedStream.streamdaoFeePercent s
               \<or> 2 ^ 53 - 1 < DecodedStream.partnerFeePercent s
               \<or> 2 ^ 53 - 1 < DecodedStream.start s \<or> 2 ^ 53 - 1 < DecodedStream.period s
               \<or> 2 ^ 53 - 1 < DecodedStream.cliff s
               \<or> 2 ^ 53 - 1 < DecodedStream.withdrawalFrequency s)))"
proof (intro conjI impI)
  let ?b = "[255, 255, 255, 255, 255, 255, 255, 255] @ replicate 527 (0::byte)"
  have "463 \<le> length ?b" by simp
  from decodeStream_nonneg [OF this, of decoder] obtain s where
    s: "decodeStream decoder ?b = Inr s" and m: "DecodedStream.magic s = BN_le (field ?b ''magic'' 8)"
    by blast
  have "BN_le (field ?b ''magic'' 8) = 18446744073709551615"
    by (simp add: field_def offset_of_simps)
  with m have "2 ^ 53 \<le> \<bar>DecodedStream.magic s\<bar>" by simp
  then have "formatDecodedStream toBase58 s = Inl AssertionError"
    unfolding formatDecodedStream_Inl_iff by (rule disjI1)
  with s have "length ?b = 535 \<and> decodeStream decoder ?b = Inr s
      \<and> formatDecodedStream toBase58 s = Inl AssertionError
      \<and> getOne decoder toBase58 ?b = Inl AssertionError"
    by (simp add: getOne_def ebind_def)
  then show "\<exists>b s. length b = 535 \<and> decodeStream decoder b = Inr s
       \<and> formatDecodedStream toBase58 s = Inl AssertionError
       \<and> getOne decoder toBase58 b = Inl AssertionError" by blast
next
  assume "535 \<le> length buf"
  then have "463 \<le> length buf" by simp
  from decodeStream_nonneg [OF this, of decoder] obtain s where
    s: "decodeStream decoder buf = Inr s"
    and n: "0 \<le> DecodedStream.magic s" "0 \<le> DecodedStream.version s"
      "0 \<le> DecodedStream.createdAt s" "0 \<le> DecodedStream.canceledAt s"
      "0 \<le> DecodedStream.end' s" "0 \<le> DecodedStream.lastWithdrawnAt s"
      "0 \<le> DecodedStream.streamdaoFeePercent s" "0 \<le> DecodedStream.partnerFeePercent s"
      "0 \<le> DecodedStream.start s" "0 \<le> DecodedStream.period s"
      "0 \<le> DecodedStream.cliff s" "0 \<le> DecodedStream.withdrawalFrequency s"
    by blast
  show "\<exists>s. decodeStream decoder buf = Inr s
          \<and> (formatDecodedStream toBase58 s = Inl AssertionError \<longleftrightarrow>
               2 ^ 53 - 1 < DecodedStream.magic s \<or> 2 ^ 53 - 1 < DecodedStream.version s
               \<or> 2 ^ 53 - 1 < DecodedStream.createdAt s \<or> 2 ^ 53 - 1 < DecodedStream.canceledAt s
               \<or> 2 ^ 53 - 1 < DecodedStream.end' s \<or> 2 ^ 53 - 1 < DecodedStream.lastWithdrawnAt s
               \<or> 2 ^ 53 - 1 < DecodedStream.streamdaoFeePercent s
               \<or> 2 ^ 53 - 1 < DecodedStream.partnerFeePercent s
               \<or> 2 ^ 53 - 1 < DecodedStream.start s \<or> 2 ^ 53 - 1 < DecodedStream.period s
               \<or> 2 ^ 53 - 1 < DecodedStream.cliff s
               \<or> 2 ^ 53 - 1 < DecodedStream.withdrawalFrequency s)"
    by (rule exI [of _ s]) (simp only: s formatDecodedStream_Inl_iff n [THEN abs_ge_iff] simp_thms)
qed

theorem formatDecodedStream_partial_witness:
  "535 \<le> length ([1, 0, 0, 0, 0, 0, 0, 255] @ replicate 527 (0::byte))
   \<and> (\<exists>s. decodeStream id ([1, 0, 0, 0, 0, 0, 0, 255] @ replicate 527 (0::byte)) = Inr s
        \<and> 2 ^ 53 - 1 < DecodedStream.magic s
        \<and> formatDecodedStream id s = Inl AssertionError)"
proof -
  let ?b = "[1, 0, 0, 0, 0, 0, 0, 255] @ replicate 527 (0::byte)"
  have l: "535 \<le> length ?b" by simp
  then have "463 \<le> length ?b" by simp
  from decodeStream_nonneg [OF this, of id] obtain s where
    s: "decodeStream id ?b = Inr s" and m: "DecodedStream.magic s = BN_le (field ?b ''magic'' 8)"
    by blast
  have "BN_le (field ?b ''magic'' 8) = 18374686479671623681"
    by (simp add: field_def offset_of_simps)
  with m have big: "2 ^ 53 - 1 < DecodedStream.magic s" by simp
  from formatDecodedStream_partial [of id id ?b] l s big
  have "formatDecodedStream id s = Inl AssertionError" by auto
  with l s big show ?thesis by blast
qed

section \<open>The name encoder, proofs\<close>

lemma concat_spread: "concat (spread str) = str"
  by (induction str rule: spread.induct) simp_all

lemma spread_char:
  "c \<in> set (spread str) \<Longrightarrow> (\<exists>u. c = [u]) \<or> (\<exists>u v. c = [u, v] \<and> is_lead u \<and> is_trail v)"
  by (induction str rule: spread.induct) (auto split: if_splits)

lemma TextEncoder_encode_char:
  assumes "c \<in> set (spread str)"
  shows "TextEncoder_encode c = utf8 (code_point c)"
  using spread_char [OF assms] by (auto simp: TextEncoder_encode_def)

lemma length_utf8: "1 \<le> length (utf8 c) \<and> length (utf8 c) \<le> 4"
  by (simp add: utf8_def)

lemma every_char_prefix:
  assumes "length acc \<le> 64"
  shows "\<exists>k\<le>length cs.
      every_char enc cs acc = acc @ map uint (concat (map enc (take k cs)))
      \<and> length acc + length (concat (map enc (take k cs))) \<le> 64
      \<and> (k < length cs \<longrightarrow>
            64 < length acc + length (concat (map enc (take k cs))) + length (enc (cs ! k)))"
  using assms
proof (induction cs arbitrary: acc)
  case Nil
  then show ?case by simp
next
  case (Cons c cs)
  show ?case
  proof (cases "64 < length acc + length (enc c)")
    case True
    with Cons.prems have "every_char enc (c # cs) acc = acc" by simp
    with True Cons.prems show ?thesis by (intro exI [of _ 0]) simp
  next
    case False
    then have le: "length (acc @ map uint (enc c)) \<le> 64" by simp
    from Cons.IH [OF le] obtain k where k: "k \<le> length cs"
      and eq: "every_char enc cs (acc @ map uint (enc c))
          = (acc @ map uint (enc c)) @ map uint (concat (map enc (take k cs)))"
      and len: "length (acc @ map uint (enc c)) + length (concat (map enc (take k cs))) \<le> 64"
      and stop: "k < length cs \<longrightarrow>
          64 < length (acc @ map uint (enc c)) + length (concat (map enc (take k cs)))
                 + length (enc (cs ! k))"
      by blast
    from False Cons.prems have "every_char enc (c # cs) acc = every_char enc cs (acc @ map uint (enc c))"
      by (simp add: Let_def)
    with k eq len stop show ?thesis
      by (intro exI [of _ "Suc k"]) (simp add: add.assoc)
  qed
qed

lemma formatStringToBytesArray_prefix:
  "\<exists>k\<le>length (spread str).
     formatStringToBytesArray enc str =
       Inr (map uint (concat (map enc (take k (spread str))))
            @ replicate (64 - length (concat (map enc (take k (spread str))))) 0)
     \<and> length (concat (map enc (take k (spread str)))) \<le> 64
     \<and> (k < length (spread str) \<longrightarrow>
           64 < length (concat (map enc (take k (spread str)))) + length (enc (spread str ! k)))"
proof -
  from every_char_prefix [of "[]" "spread str" enc] obtain k where k: "k \<le> length (spread str)"
    and eq: "every_char enc (spread str) [] = map uint (concat (map enc (take k (spread str))))"
    and len: "length (concat (map enc (take k (spread str)))) \<le> 64"
    and stop: "k < length (spread str) \<longrightarrow>
           64 < length (concat (map enc (take k (spread str)))) + length (enc (spread str ! k))"
    by auto
  from len have "formatStringToBytesArray enc str =
       Inr (map uint (concat (map enc (take k (spread str))))
            @ replicate (64 - length (concat (map enc (take k (spread str))))) 0)"
    by (simp add: formatStringToBytesArray_def eq Array_fill_def ebind_def Let_def nat_diff_distrib' of_nat_diff)
  with k len stop show ?thesis by blast
qed

lemma ascii_not_surrogate:
  assumes "u < 0x80"
  shows "\<not> is_lead u" and "\<not> is_trail u"
proof -
  from assms have "unat u < 128" by (simp add: word_less_nat_alt)
  then show "\<not> is_lead u" and "\<not> is_trail u"
    by (simp_all add: is_lead_def is_trail_def word_le_nat_alt)
qed

lemma spread_ascii:
  "\<forall>u\<in>set str. u < 0x80 \<Longrightarrow> spread str = map (\<lambda>u. [u]) str"
proof (induction str rule: spread.induct)
  case (3 u v us)
  then have "\<not> is_lead u" by (simp add: ascii_not_surrogate)
  with 3 show ?case by simp
qed simp_all

lemma encode_ascii:
  assumes "u < 0x80"
  shows "map uint (TextEncoder_encode [u]) = [uint u]"
proof -
  from assms have n: "unat u < 128" by (simp add: word_less_nat_alt)
  then have "unat (of_nat (unat u) :: byte) = unat u"
    by (simp only: unat_of_nat) simp
  then have "int (unat (of_nat (unat u) :: byte)) = int (unat u)" by (rule arg_cong)
  then have u: "uint (of_nat (unat u) :: byte) = uint u" by (simp only: uint_nat)
  have "code_point [u] = unat u" using assms by (simp add: ascii_not_surrogate)
  moreover have "utf8 (unat u) = [of_nat (unat u)]" using n by (simp add: utf8_def)
  ultimately have "TextEncoder_encode [u] = [of_nat (unat u)]"
    by (simp add: TextEncoder_encode_def)
  with u show ?thesis by (simp only: list.map)
qed

lemma every_char_ascii:
  assumes "\<forall>u\<in>set str. u < 0x80" and "length acc \<le> 64"
  shows "every_char TextEncoder_encode (map (\<lambda>u. [u]) str) acc
           = acc @ map uint (take (64 - length acc) str)"
  using assms
proof (induction str arbitrary: acc)
  case Nil
  then show ?case by simp
next
  case (Cons u us)
  from Cons.prems(1) have e: "map uint (TextEncoder_encode [u]) = [uint u]"
    by (simp add: encode_ascii)
  then have l: "length (TextEncoder_encode [u]) = 1"
    by (metis length_map length_Cons list.size(3) One_nat_def)
  show ?case
  proof (cases "length acc = 64")
    case True
    from l have "TextEncoder_encode [u] \<noteq> []" by auto
    with True show ?thesis by (simp add: Let_def)
  next
    case False
    with Cons.prems(2) have lt: "length acc < 64" by simp
    then have "length (acc @ [uint u]) \<le> 64" by simp
    from Cons.IH [OF _ this] Cons.prems(1)
    have "every_char TextEncoder_encode (map (\<lambda>u. [u]) us) (acc @ [uint u])
        = (acc @ [uint u]) @ map uint (take (64 - length (acc @ [uint u])) us)" by simp
    moreover from lt have "64 - length acc = Suc (64 - length (acc @ [uint u]))" by simp
    then have "take (64 - length acc) (u # us) = u # take (64 - length (acc @ [uint u])) us"
      by (simp only: take_Suc_Cons)
    ultimately show ?thesis using lt l e by (simp add: Let_def)
  qed
qed

lemma formatStringToBytesArray_ascii:
  assumes "\<forall>u\<in>set str. u < 0x80" and "64 \<le> length str"
  shows "formatStringToBytesArray TextEncoder_encode str = Inr (map uint (take 64 str))"
  using assms every_char_ascii [OF assms(1), of "[]"]
  by (simp add: formatStringToBytesArray_def spread_ascii Array_fill_def ebind_def Let_def)

lemma spread_append_not_trail:
  "\<not> is_trail u \<Longrightarrow> spread (xs @ u # rest) = spread xs @ spread (u # rest)"
  by (induction xs rule: spread.induct) simp_all

lemma lead_not_trail: "is_lead u \<Longrightarrow> \<not> is_trail u"
  by (simp add: is_lead_def is_trail_def word_le_nat_alt)

lemma spread_pair:
  assumes "is_lead u" and "is_trail v"
  shows "spread (xs @ u # v # ys) = spread xs @ [u, v] # spread ys"
  using assms by (simp add: spread_append_not_trail lead_not_trail)

lemma spread_single:
  assumes "\<not> is_lead u" and "\<not> is_trail u"
  shows "spread (xs @ u # ys) = spread xs @ [u] # spread ys"
proof -
  from assms(1) have "spread (u # ys) = [u] # spread ys" by (cases ys) simp_all
  with assms(2) show ?thesis by (simp add: spread_append_not_trail)
qed

lemma length_encode_char:
  assumes "c \<in> set (spread str)"
  shows "1 \<le> length (TextEncoder_encode c) \<and> length (TextEncoder_encode c) \<le> 4"
  using length_utf8 [of "code_point c"] by (simp add: TextEncoder_encode_char [OF assms])

lemma spread_ascii_append:
  "\<forall>u\<in>set asc. u < 0x80 \<Longrightarrow> spread (asc @ rest) = map (\<lambda>u. [u]) asc @ spread rest"
proof (induction asc)
  case Nil
  then show ?case by simp
next
  case (Cons u us)
  then have "\<not> is_lead u" "\<not> is_trail u" by (simp_all add: ascii_not_surrogate)
  then have "spread ([] @ u # (us @ rest)) = spread [] @ [u] # spread (us @ rest)"
    by (rule spread_single)
  with Cons show ?case by simp
qed

lemma every_char_ascii_append:
  assumes "\<forall>u\<in>set asc. u < 0x80" and "length acc + length asc \<le> 64"
  shows "every_char TextEncoder_encode (map (\<lambda>u. [u]) asc @ cs) acc
           = every_char TextEncoder_encode cs (acc @ map uint asc)"
  using assms
proof (induction asc arbitrary: acc)
  case Nil
  then show ?case by simp
next
  case (Cons u us)
  from Cons.prems(1) have e: "map uint (TextEncoder_encode [u]) = [uint u]"
    by (simp add: encode_ascii)
  then have l: "length (TextEncoder_encode [u]) = 1"
    by (metis length_map length_Cons list.size(3) One_nat_def)
  from Cons.prems(2) have "length (acc @ [uint u]) + length us \<le> 64" by simp
  from Cons.IH [OF _ this] Cons.prems(1)
  have "every_char TextEncoder_encode (map (\<lambda>u. [u]) us @ cs) (acc @ [uint u])
      = every_char TextEncoder_encode cs ((acc @ [uint u]) @ map uint us)" by simp
  with Cons.prems(2) l e show ?case by (simp add: Let_def)
qed

lemma formatStringToBytesArray_ascii_then:
  assumes "\<forall>u\<in>set asc. u < 0x80" and "length asc \<le> 64"
    and "every_char TextEncoder_encode (spread rest) (map uint asc) = acc"
    and "length acc \<le> 64"
  shows "formatStringToBytesArray TextEncoder_encode (asc @ rest)
           = Inr (acc @ replicate (64 - length acc) 0)"
  using assms every_char_ascii_append [OF assms(1), of "[]" "spread rest"]
  by (simp add: formatStringToBytesArray_def spread_ascii_append Array_fill_def ebind_def Let_def
      nat_diff_distrib' of_nat_diff)

lemma surrogates: "is_lead 0xD83D" "is_trail 0xDE00" "\<not> is_lead 0xE9" "\<not> is_trail 0xE9"
  "\<not> is_lead 0x62" "\<not> is_trail 0x62" "\<not> is_lead 0xDE00" "\<not> is_trail 0xD83D"
  by (simp_all add: is_lead_def is_trail_def)

lemma encode_grinning: "TextEncoder_encode [0xD83D, 0xDE00] = [0xF0, 0x9F, 0x98, 0x80]"
  by (simp add: TextEncoder_encode_def surrogates utf8_def)

lemma encode_e_acute: "TextEncoder_encode [0xE9] = [0xC3, 0xA9]"
  by (simp add: TextEncoder_encode_def surrogates utf8_def)

lemma encode_b: "TextEncoder_encode [0x62] = [0x62]"
  by (simp add: TextEncoder_encode_def surrogates utf8_def)

lemma encode_lone: "TextEncoder_encode [0xDE00] = [0xEF, 0xBF, 0xBD]"
  by (simp add: TextEncoder_encode_def surrogates utf8_def)

lemma spread_tail1: "spread [0xD83D, 0xDE00, 0x62] = [[0xD83D, 0xDE00], [0x62]]"
  by (simp add: surrogates)

lemma spread_tail2: "spread [0xE9, 0xD83D, 0xDE00, 0x62] = [[0xE9], [0xD83D, 0xDE00], [0x62]]"
  by (simp add: surrogates)

lemma pair_across_byte_64:
  "formatStringToBytesArray TextEncoder_encode (replicate 61 0x61 @ [0xD83D, 0xDE00, 0x62])
     = Inr (replicate 61 0x61 @ replicate 3 0)"
proof -
  have a: "\<forall>u\<in>set (replicate 61 (0x61 :: 16 word)). u < 0x80" by simp
  have l: "length (replicate 61 (0x61 :: 16 word)) \<le> 64" by simp
  have e: "every_char TextEncoder_encode (spread [0xD83D, 0xDE00, 0x62])
          (map uint (replicate 61 (0x61 :: 16 word))) = replicate 61 0x61"
    unfolding spread_tail1 by (simp add: encode_grinning)
  have "length (replicate 61 (0x61 :: int)) \<le> 64" by simp
  from formatStringToBytesArray_ascii_then [OF a l e this] show ?thesis by simp
qed

lemma pair_up_to_byte_64:
  "formatStringToBytesArray TextEncoder_encode (replicate 58 0x61 @ [0xE9, 0xD83D, 0xDE00, 0x62])
     = Inr (replicate 58 0x61 @ [0xC3, 0xA9, 0xF0, 0x9F, 0x98, 0x80])"
proof -
  have a: "\<forall>u\<in>set (replicate 58 (0x61 :: 16 word)). u < 0x80" by simp
  have l: "length (replicate 58 (0x61 :: 16 word)) \<le> 64" by simp
  have e: "every_char TextEncoder_encode (spread [0xE9, 0xD83D, 0xDE00, 0x62])
          (map uint (replicate 58 (0x61 :: 16 word)))
      = replicate 58 0x61 @ [0xC3, 0xA9, 0xF0, 0x9F, 0x98, 0x80]"
    unfolding spread_tail2 by (simp add: encode_grinning encode_e_acute encode_b)
  have "length (replicate 58 (0x61 :: int) @ [0xC3, 0xA9, 0xF0, 0x9F, 0x98, 0x80]) \<le> 64" by simp
  from formatStringToBytesArray_ascii_then [OF a l e this] show ?thesis by simp
qed

text \<open>
  C7. For every string the name encoder returns exactly 64 numbers. The string is walked
  by code point (\<open>spread\<close>): its characters are single code units and surrogate pairs, a
  lead surrogate from \<open>0xD800\<close> to \<open>0xDBFF\<close> followed by a trail surrogate from \<open>0xDC00\<close>
  to \<open>0xDFFF\<close>, and such a pair, wherever it stands, is one character. Each character is
  encoded whole in UTF-8, in 1 to 4 bytes, and the result is the bytes of the first \<open>k\<close>
  characters, where the bytes of character \<open>k\<close>, if there is one, would pass 64, followed
  by zeros up to 64. For 70 ASCII characters the result is the first 64 of them.
\<close>

theorem formatStringToBytesArray_64_bytes:
  "concat (spread str) = str
   \<and> (\<forall>c\<in>set (spread str).
         (\<exists>a. c = [a])
         \<or> (\<exists>a b. c = [a, b] \<and> 0xD800 \<le> a \<and> a \<le> 0xDBFF \<and> 0xDC00 \<le> b \<and> b \<le> 0xDFFF))
   \<and> (0xD800 \<le> u \<and> u \<le> 0xDBFF \<and> 0xDC00 \<le> v \<and> v \<le> 0xDFFF
        \<longrightarrow> spread (xs @ u # v # ys) = spread xs @ [u, v] # spread ys)
   \<and> (\<forall>c\<in>set (spread str). TextEncoder_encode c = utf8 (code_point c)
         \<and> 1 \<le> length (TextEncoder_encode c) \<and> length (TextEncoder_encode c) \<le> 4)
   \<and> (\<exists>k\<le>length (spread str).
         formatStringToBytesArray TextEncoder_encode str =
           Inr (map uint (concat (map TextEncoder_encode (take k (spread str))))
                @ replicate (64 - length (concat (map TextEncoder_encode (take k (spread str))))) 0)
         \<and> length (concat (map TextEncoder_encode (take k (spread str)))) \<le> 64
         \<and> (k < length (spread str) \<longrightarrow>
               64 < length (concat (map TextEncoder_encode (take k (spread str))))
                      + length (TextEncoder_encode (spread str ! k))))
   \<and> (\<exists>r. formatStringToBytesArray TextEncoder_encode str = Inr r \<and> length r = 64)
   \<and> (length str = 70 \<and> (\<forall>u\<in>set str. u < 0x80) \<longrightarrow>
         formatStringToBytesArray TextEncoder_encode str = Inr (map uint (take 64 str)))"
proof (intro conjI)
  show "concat (spread str) = str" by (rule concat_spread)
  show "\<forall>c\<in>set (spread str).
         (\<exists>a. c = [a])
         \<or> (\<exists>a b. c = [a, b] \<and> 0xD800 \<le> a \<and> a \<le> 0xDBFF \<and> 0xDC00 \<le> b \<and> b \<le> 0xDFFF)"
    using spread_char [of _ str] by (auto simp: is_lead_def is_trail_def)
  show "0xD800 \<le> u \<and> u \<le> 0xDBFF \<and> 0xDC00 \<le> v \<and> v \<le> 0xDFFF
        \<longrightarrow> spread (xs @ u # v # ys) = spread xs @ [u, v] # spread ys"
    using spread_pair [of u v xs ys] by (simp add: is_lead_def is_trail_def)
  show "\<forall>c\<in>set (spread str). TextEncoder_encode c = utf8 (code_point c)
         \<and> 1 \<le> length (TextEncoder_encode c) \<and> length (TextEncoder_encode c) \<le> 4"
    using length_encode_char [of _ str] by (simp add: TextEncoder_encode_char)
  show "\<exists>k\<le>length (spread str).
         formatStringToBytesArray TextEncoder_encode str =
           Inr (map uint (concat (map TextEncoder_encode (take k (spread str))))
                @ replicate (64 - length (concat (map TextEncoder_encode (take k (spread str))))) 0)
         \<and> length (concat (map TextEncoder_encode (take k (spread str)))) \<le> 64
         \<and> (k < length (spread str) \<longrightarrow>
               64 < length (concat (map TextEncoder_encode (take k (spread str))))
                      + length (TextEncoder_encode (spread str ! k)))"
    by (rule formatStringToBytesArray_prefix)
  from formatStringToBytesArray_prefix [of str TextEncoder_encode]
  show "\<exists>r. formatStringToBytesArray TextEncoder_encode str = Inr r \<and> length r = 64"
    by auto
  show "length str = 70 \<and> (\<forall>u\<in>set str. u < 0x80) \<longrightarrow>
         formatStringToBytesArray TextEncoder_encode str = Inr (map uint (take 64 str))"
    by (simp add: formatStringToBytesArray_ascii)
qed

theorem formatStringToBytesArray_64_bytes_witness:
  "spread [0x61, 0xD83D, 0xDE00, 0x62] = [[0x61], [0xD83D, 0xDE00], [0x62]]
   \<and> formatStringToBytesArray TextEncoder_encode (replicate 61 0x61 @ [0xD83D, 0xDE00, 0x62])
       = Inr (replicate 61 0x61 @ replicate 3 0)
   \<and> formatStringToBytesArray TextEncoder_encode (replicate 58 0x61 @ [0xE9, 0xD83D, 0xDE00, 0x62])
       = Inr (replicate 58 0x61 @ [0xC3, 0xA9, 0xF0, 0x9F, 0x98, 0x80])
   \<and> length (replicate 70 (0x61 :: 16 word)) = 70
   \<and> formatStringToBytesArray TextEncoder_encode (replicate 70 0x61) = Inr (replicate 64 0x61)"
proof -
  have "(0xD800 :: 16 word) \<le> 0xD83D \<and> (0xD83D :: 16 word) \<le> 0xDBFF
      \<and> (0xDC00 :: 16 word) \<le> 0xDE00 \<and> (0xDE00 :: 16 word) \<le> 0xDFFF" by simp
  with formatStringToBytesArray_64_bytes
    [where str = "replicate 70 0x61" and u = "0xD83D" and v = "0xDE00" and xs = "[0x61]"
      and ys = "[0x62]"]
  have "spread ([0x61] @ 0xD83D # 0xDE00 # [0x62]) = spread [0x61] @ [0xD83D, 0xDE00] # spread [0x62]"
    and "formatStringToBytesArray TextEncoder_encode (replicate 70 0x61)
      = Inr (map uint (take 64 (replicate 70 (0x61 :: 16 word))))"
    by simp_all
  with pair_across_byte_64 pair_up_to_byte_64 show ?thesis by simp
qed

section \<open>The address search, proofs\<close>

lemma bump_search_result:
  "case bump_search derive on_curve seeds programId bump of (n, r) \<Rightarrow>
     n \<le> 256 - bump
     \<and> (case r of
          Inl e \<Rightarrow> e = DerivationError
            \<and> (\<forall>b. bump \<le> b \<and> b < 256 \<longrightarrow> on_curve (derive (seeds @ [[of_nat b]]) programId))
        | Inr (a, b) \<Rightarrow> bump \<le> b \<and> b < 256 \<and> n = b - bump + 1
            \<and> a = derive (seeds @ [[of_nat b]]) programId \<and> \<not> on_curve a
            \<and> (\<forall>b'. bump \<le> b' \<and> b' < b \<longrightarrow> on_curve (derive (seeds @ [[of_nat b']]) programId)))"
proof (induction derive on_curve seeds programId bump rule: bump_search.induct)
  case (1 derive on_curve seeds programId bump)
  show ?case
  proof (cases "256 \<le> bump")
    case True
    then show ?thesis by (subst bump_search.simps) auto
  next
    case False
    show ?thesis
    proof (cases "on_curve (derive (seeds @ [[of_nat bump]]) programId)")
      case True
      from "1.IH" [OF False refl True] True False show ?thesis
        by (subst bump_search.simps)
          (auto simp del: bump_search.simps split: prod.splits sum.splits simp: le_Suc_eq Suc_le_eq less_Suc_eq_le
             dest: le_neq_implies_less)
    next
      case False
      with \<open>\<not> 256 \<le> bump\<close> show ?thesis by (subst bump_search.simps) auto
    qed
  qed
qed

text \<open>
  C3. The search for the address of the escrow account, from the seeds \<open>"strm"\<close> and the
  key of the fresh record and the program identifier, always ends: it makes at most 256
  derivations, with the bumps 0, 1, 2, ... in turn, and returns the first address that is
  off the curve with its bump, or fails with a \<open>DerivationError\<close> when all 256 bumps give
  an address on the curve.
\<close>

theorem findProgramAddress_bounded:
  "\<exists>n r. bump_search derive on_curve (escrow_seeds metadata) programId 0 = (n, r)
     \<and> create_escrowTokens derive on_curve metadata programId = r
     \<and> n \<le> 256
     \<and> (case r of
          Inl e \<Rightarrow> e = DerivationError
            \<and> (\<forall>b<256. on_curve (derive (escrow_seeds metadata @ [[of_nat b]]) programId))
        | Inr (a, b) \<Rightarrow> b < 256 \<and> n = b + 1
            \<and> a = derive (escrow_seeds metadata @ [[of_nat b]]) programId \<and> \<not> on_curve a
            \<and> (\<forall>b'<b. on_curve (derive (escrow_seeds metadata @ [[of_nat b']]) programId)))"
  using bump_search_result [where derive = derive and on_curve = on_curve
      and seeds = "escrow_seeds metadata" and programId = programId and bump = 0]
  by (auto simp: create_escrowTokens_def findProgramAddress_def simp del: bump_search.simps
      split: prod.splits sum.splits)

theorem findProgramAddress_bounded_witness:
  "create_escrowTokens (\<lambda>seeds p. unat (hd (last seeds))) (\<lambda>a. a < 3) (PublicKey 0) () = Inr (3, 3)
   \<and> fst (bump_search (\<lambda>seeds p. unat (hd (last seeds))) (\<lambda>a. a < 3)
          (escrow_seeds (PublicKey 0)) () 0) = 4"
proof -
  have e: "create_escrowTokens (\<lambda>seeds p. unat (hd (last seeds))) (\<lambda>a. a < 3) (PublicKey 0) ()
      = Inr (3, 3)"
    by code_simp
  from findProgramAddress_bounded
    [of "\<lambda>seeds p. unat (hd (last seeds))" "\<lambda>a. a < 3" "PublicKey 0" "()"]
  show ?thesis unfolding e by (auto simp del: bump_search.simps)
qed

section \<open>Rounding to a double\<close>

lemma round_even_of_int: "round_even (of_int z) = z"
  by (simp add: round_even_def)

lemma round_even_le:
  assumes "y \<le> of_int z"
  shows "round_even y \<le> z"
proof (cases "y = of_int \<lfloor>y\<rfloor>")
  case True
  then have "round_even y = \<lfloor>y\<rfloor>" by (metis round_even_of_int)
  with assms show ?thesis by (simp add: floor_le_iff)
next
  case False
  have "of_int \<lfloor>y\<rfloor> \<le> y" by simp
  with False have "of_int \<lfloor>y\<rfloor> < y" by (metis order_le_less)
  with assms have "(of_int \<lfloor>y\<rfloor> :: rat) < of_int z" by simp
  then have "\<lfloor>y\<rfloor> < z" by simp
  moreover have "round_even y \<le> \<lfloor>y\<rfloor> + 1" by (simp add: round_even_def Let_def)
  ultimately show ?thesis by simp
qed

lemma round_even_nonneg: "0 \<le> y \<Longrightarrow> 0 \<le> round_even y"
  by (simp add: round_even_def Let_def)

lemma bitlen_pos: "0 < x \<Longrightarrow> 1 \<le> bitlen x"
  by (auto simp: bitlen_alt_def)

lemma ilog2_le:
  assumes "0 < x"
  shows "2 powi (ilog2 x) \<le> x"
proof (cases "1 \<le> x")
  case True
  then have p: "0 < \<lfloor>x\<rfloor>" by simp
  from bitlen_bounds [OF p] have "2 ^ nat (bitlen \<lfloor>x\<rfloor> - 1) \<le> \<lfloor>x\<rfloor>" by simp
  then have "(of_int (2 ^ nat (bitlen \<lfloor>x\<rfloor> - 1)) :: rat) \<le> of_int \<lfloor>x\<rfloor>"
    by (simp only: of_int_le_iff)
  also have "\<dots> \<le> x" by simp
  finally have "(2 :: rat) ^ nat (bitlen \<lfloor>x\<rfloor> - 1) \<le> x" by simp
  moreover from bitlen_pos [OF p] have "0 \<le> bitlen \<lfloor>x\<rfloor> - 1" by simp
  ultimately show ?thesis using True by (simp add: ilog2_def power_int_nonneg_exp)
next
  case False
  define c where "c = \<lceil>1 / x\<rceil>"
  from False assms have "1 < 1 / x" by simp
  then have "1 < c" unfolding c_def by (simp add: less_ceiling_iff)
  then have p: "0 < c - 1" by simp
  from bitlen_bounds [OF p] have "c - 1 < 2 ^ nat (bitlen (c - 1))" by simp
  then have "c \<le> 2 ^ nat (bitlen (c - 1))" by simp
  then have "(of_int c :: rat) \<le> of_int (2 ^ nat (bitlen (c - 1)))" by (simp only: of_int_le_iff)
  moreover have "(of_int (2 ^ nat (bitlen (c - 1))) :: rat) = 2 ^ nat (bitlen (c - 1))" by simp
  moreover have "1 / x \<le> of_int c" unfolding c_def by (rule le_of_int_ceiling)
  ultimately have "1 / x \<le> 2 ^ nat (bitlen (c - 1))" by (simp only: order_trans)
  with assms have "1 \<le> x * 2 ^ nat (bitlen (c - 1))"
    by (simp add: pos_divide_le_eq mult.commute)
  then have "1 / 2 ^ nat (bitlen (c - 1)) \<le> x"
    by (simp add: pos_divide_le_eq)
  moreover have "(2 :: rat) powi (- bitlen (c - 1)) = 1 / 2 ^ nat (bitlen (c - 1))"
    using bitlen_nonneg [of "c - 1"] by (simp only: power_int_minus_divide power_int_nonneg_exp)
  ultimately show ?thesis using False by (simp add: ilog2_def c_def)
qed

lemma ilog2_le_52:
  assumes "0 < x" and "x < 2 ^ 53"
  shows "ilog2 x \<le> 52"
proof -
  from ilog2_le [OF assms(1)] assms(2) have "(2 :: rat) powi (ilog2 x) < 2 powi 53" by simp
  then have "ilog2 x < 53" by (rule power_int_le_imp_less_exp [rotated]) simp_all
  then show ?thesis by simp
qed

text \<open>Below \<open>2 ^ 53\<close> the unit of rounding is \<open>1 / 2 ^ j\<close> for some \<open>j\<close>.\<close>

lemma fl_unit:
  assumes "x \<noteq> 0" and "\<bar>x\<bar> < 2 ^ 53"
  shows "\<exists>j. fl x = of_int (round_even (x * 2 ^ j)) / 2 ^ j"
proof -
  define e where "e = max (ilog2 \<bar>x\<bar> - 52) (- 1074)"
  from assms have "ilog2 \<bar>x\<bar> \<le> 52" by (intro ilog2_le_52) simp_all
  then have "e \<le> 0" by (simp add: e_def)
  have "(2 :: rat) powi e = 2 powi (- (- e))" by simp
  also have "\<dots> = 1 / 2 powi (- e)" by (rule power_int_minus_divide)
  also have "(2 :: rat) powi (- e) = 2 ^ nat (- e)"
    using \<open>e \<le> 0\<close> by (simp only: power_int_nonneg_exp neg_0_le_iff_le)
  finally have u: "(2 :: rat) powi e = 1 / 2 ^ nat (- e)" .
  have "fl x = of_int (round_even (x / 2 powi e)) * 2 powi e"
    unfolding fl_def e_def Let_def using assms(1) by (simp only: if_False)
  then have "fl x = of_int (round_even (x * 2 ^ nat (- e))) / 2 ^ nat (- e)"
    unfolding u by simp
  then show ?thesis ..
qed

lemma fl_of_int:
  assumes "\<bar>m\<bar> < 2 ^ 53"
  shows "fl (of_int m) = of_int m"
proof (cases "m = 0")
  case True
  then show ?thesis by (simp add: fl_def)
next
  case False
  from assms have "\<bar>of_int m :: rat\<bar> < 2 ^ 53"
    by (metis of_int_abs of_int_less_numeral_power_cancel_iff)
  moreover from False have "(of_int m :: rat) \<noteq> 0" by simp
  ultimately obtain j where j: "fl (of_int m) = of_int (round_even (of_int m * 2 ^ j)) / 2 ^ j"
    using fl_unit [of "of_int m"] by blast
  have "(of_int m :: rat) * 2 ^ j = of_int (m * 2 ^ j)" by simp
  then have "round_even (of_int m * 2 ^ j) = m * 2 ^ j" by (simp only: round_even_of_int)
  then have "fl (of_int m) = of_int (m * 2 ^ j) / 2 ^ j" by (simp only: j)
  also have "\<dots> = of_int m" by simp
  finally show ?thesis .
qed

lemma fl_le_of_int:
  assumes "0 \<le> y" and "y \<le> of_int n" and "n < 2 ^ 53"
  shows "0 \<le> fl y \<and> fl y \<le> of_int n"
proof (cases "y = 0")
  case True
  with assms show ?thesis by (simp add: fl_def)
next
  case False
  from assms have "y < 2 ^ 53"
    by (metis le_less_trans of_int_less_numeral_power_cancel_iff)
  with assms False obtain j where j: "fl y = of_int (round_even (y * 2 ^ j)) / 2 ^ j"
    using fl_unit [of y] by auto
  from assms(2) have "y * 2 ^ j \<le> of_int (n * 2 ^ j)" by simp
  then have "round_even (y * 2 ^ j) \<le> n * 2 ^ j" by (rule round_even_le)
  then have "(of_int (round_even (y * 2 ^ j)) :: rat) \<le> of_int (n * 2 ^ j)"
    by (simp only: of_int_le_iff)
  then have "fl y \<le> of_int n" unfolding j by (simp add: field_simps)
  moreover from assms(1) have "0 \<le> round_even (y * 2 ^ j)" by (intro round_even_nonneg) simp
  then have "0 \<le> fl y" unfolding j by simp
  ultimately show ?thesis by simp
qed

lemma pow10_table:
  "list_all (\<lambda>d. js_pow10 d = 10 ^ d) [0..<23]"
  by code_simp

lemma threshold_table:
  "list_all (\<lambda>d. js_div MAX_SAFE (js_pow10 d) * 10 ^ d < 2 ^ 53
      \<and> of_int \<lfloor>js_div MAX_SAFE (js_pow10 d)\<rfloor> * 10 ^ d \<le> (2 ^ 53 - 1 :: rat)) [0..<16]"
  by code_simp

lemma js_pow10_exact: "d \<le> 22 \<Longrightarrow> js_pow10 d = 10 ^ d"
  using pow10_table by (simp add: list_all_iff)

lemma threshold_lt: "d \<le> 15 \<Longrightarrow> js_div MAX_SAFE (js_pow10 d) * 10 ^ d < 2 ^ 53"
  using threshold_table by (simp add: list_all_iff)

lemma threshold_floor:
  "d \<le> 15 \<Longrightarrow> of_int \<lfloor>js_div MAX_SAFE (js_pow10 d)\<rfloor> * 10 ^ d \<le> (2 ^ 53 - 1 :: rat)"
  using threshold_table by (simp add: list_all_iff)

lemma new_BN_MAX_SAFE: "new_BN MAX_SAFE = Inr (2 ^ 53 - 1)"
  by code_simp

lemma pow10_small: "d \<le> 15 \<Longrightarrow> (10 :: int) ^ d < 2 ^ 53"
proof -
  assume "d \<le> 15"
  then have "(10 :: int) ^ d \<le> 10 ^ 15" by (intro power_increasing) simp_all
  then show ?thesis by simp
qed

lemma trunc_of_int: "trunc (of_int k) = k"
  by (simp add: trunc_def)

lemma new_BN_of_int: "\<bar>k\<bar> < 2 ^ 53 \<Longrightarrow> new_BN (of_int k) = Inr k"
  by (simp add: new_BN_def trunc_of_int flip: of_int_abs)

lemma new_BN_pow10: "d \<le> 15 \<Longrightarrow> new_BN (js_pow10 d) = Inr (10 ^ d)"
  using new_BN_of_int [of "10 ^ d"] pow10_small [of d] by (simp add: js_pow10_exact)

section \<open>The amount scaler, proofs\<close>

lemma getBN_big:
  assumes "value < 2 ^ 53" and "d \<le> 15" and "2 ^ 53 \<le> value * 10 ^ d"
  shows "getBN value d = Inr (\<lfloor>value\<rfloor> * 10 ^ d)"
proof -
  have p: "(0 :: rat) < 10 ^ d" by simp
  from threshold_lt [OF assms(2)] assms(3)
  have "js_div MAX_SAFE (js_pow10 d) * 10 ^ d < value * 10 ^ d" by (rule less_le_trans)
  with p have t: "js_div MAX_SAFE (js_pow10 d) < value" by (simp only: mult_less_cancel_right_pos)
  have "0 < value"
  proof (rule ccontr)
    assume "\<not> 0 < value"
    then have "value * 10 ^ d \<le> 0" by (simp add: mult_le_0_iff)
    with assms(3) show False by simp
  qed
  with assms(1) have "new_BN value = Inr \<lfloor>value\<rfloor>" by (simp add: new_BN_def trunc_def)
  with t show ?thesis by (simp add: getBN_def ebind_def new_BN_pow10 [OF assms(2)])
qed

lemma getBN_small:
  assumes "0 \<le> value" and "d \<le> 15" and "value * 10 ^ d \<le> 2 ^ 53 - 1"
    and "\<not> js_div MAX_SAFE (js_pow10 d) < value"
  shows "\<exists>n. getBN value d = Inr n"
proof -
  from assms(1) have "0 \<le> value * 10 ^ d" by simp
  moreover from assms(3) have "value * 10 ^ d \<le> of_int (2 ^ 53 - 1)" by simp
  ultimately have "0 \<le> fl (value * 10 ^ d) \<and> fl (value * 10 ^ d) \<le> of_int (2 ^ 53 - 1)"
    by (rule fl_le_of_int) simp
  then have "\<bar>fl (value * 10 ^ d)\<bar> < 2 ^ 53" by simp
  with assms(4) show ?thesis
    by (simp add: getBN_def js_mul_def new_BN_def js_pow10_exact assms(2) [THEN le_trans])
qed

lemma getBN_returns:
  assumes "0 \<le> value" and "value < 2 ^ 53" and "d \<le> 15"
    and "value * 10 ^ d \<le> 2 ^ 53 - 1 \<or> 2 ^ 53 \<le> value * 10 ^ d"
  shows "\<exists>n. getBN value d = Inr n"
proof (cases "2 ^ 53 \<le> value * 10 ^ d")
  case True
  with assms show ?thesis by (simp add: getBN_big)
next
  case False
  with assms(4) have s: "value * 10 ^ d \<le> 2 ^ 53 - 1" by simp
  show ?thesis
  proof (cases "js_div MAX_SAFE (js_pow10 d) < value")
    case True
    from assms(1,2) have "new_BN value = Inr \<lfloor>value\<rfloor>" by (simp add: new_BN_def trunc_def)
    with True show ?thesis by (simp add: getBN_def ebind_def new_BN_pow10 [OF assms(3)])
  next
    case False
    from getBN_small [OF assms(1) assms(3) s False] show ?thesis .
  qed
qed

lemma getBN_of_int:
  assumes "0 \<le> k" and "k < 2 ^ 53" and "d \<le> 15"
  shows "getBN (of_int k) d = Inr (k * 10 ^ d)"
proof (cases "js_div MAX_SAFE (js_pow10 d) < of_int k")
  case True
  from assms have "new_BN (of_int k) = Inr k" by (intro new_BN_of_int) simp
  with True show ?thesis by (simp add: getBN_def ebind_def new_BN_pow10 [OF assms(3)])
next
  case False
  then have "of_int k \<le> js_div MAX_SAFE (js_pow10 d)" by simp
  then have "k \<le> \<lfloor>js_div MAX_SAFE (js_pow10 d)\<rfloor>" by (simp only: le_floor_iff)
  then have "(of_int k :: rat) \<le> of_int \<lfloor>js_div MAX_SAFE (js_pow10 d)\<rfloor>"
    by (simp only: of_int_le_iff)
  then have "(of_int k :: rat) * 10 ^ d \<le> of_int \<lfloor>js_div MAX_SAFE (js_pow10 d)\<rfloor> * 10 ^ d"
    by (intro mult_right_mono) simp_all
  from this threshold_floor [OF assms(3)] have "(of_int k :: rat) * 10 ^ d \<le> 2 ^ 53 - 1"
    by (rule order_trans)
  then have "(of_int (k * 10 ^ d) :: rat) \<le> of_int (2 ^ 53 - 1)" by simp
  then have "k * 10 ^ d \<le> 2 ^ 53 - 1" by (simp only: of_int_le_iff)
  moreover from assms(1) have "0 \<le> k * 10 ^ d" by simp
  ultimately have b: "\<bar>k * 10 ^ d\<bar> < 2 ^ 53" by simp
  have "js_mul (of_int k) (js_pow10 d) = fl (of_int (k * 10 ^ d))"
    using assms(3) by (simp add: js_mul_def js_pow10_exact)
  also have "\<dots> = of_int (k * 10 ^ d)" using b by (rule fl_of_int)
  finally have "js_mul (of_int k) (js_pow10 d) = of_int (k * 10 ^ d)" .
  with False new_BN_of_int [OF b] show ?thesis by (simp add: getBN_def)
qed

lemma BN_div_pos: "0 \<le> n \<Longrightarrow> BN_div n (10 ^ d) = Inr (n div 10 ^ d)"
  by (cases "n = 0") (simp_all add: BN_div_def)

lemma getNumberFromBN_big:
  assumes "2 ^ 53 - 1 < n" and "d \<le> 15"
  shows "getNumberFromBN n d = toNumber (n div 10 ^ d)"
  using assms by (simp add: getNumberFromBN_def new_BN_MAX_SAFE new_BN_pow10 ebind_def BN_div_pos)

lemma getNumberFromBN_small:
  assumes "0 \<le> n" and "n \<le> 2 ^ 53 - 1" and "d \<le> 22"
  shows "getNumberFromBN n d = Inr (fl (of_int n / 10 ^ d))"
  using assms
  by (simp add: getNumberFromBN_def new_BN_MAX_SAFE ebind_def toNumber_def js_div_def js_pow10_exact)

lemma roundTrip_of_int:
  assumes "0 \<le> k" and "k < 2 ^ 53" and "d \<le> 15"
  shows "roundTrip (of_int k) d = Inr (of_int k)"
proof (cases "2 ^ 53 - 1 < k * 10 ^ d")
  case True
  with assms show ?thesis
    by (simp add: roundTrip_def getBN_of_int ebind_def getNumberFromBN_big toNumber_def)
next
  case False
  from assms(1) have n: "0 \<le> k * 10 ^ d" by simp
  from assms(3) have d: "d \<le> 22" by simp
  from assms(1,2) have "fl (of_int k) = of_int k" by (intro fl_of_int) simp
  with False show ?thesis
    by (simp add: roundTrip_def getBN_of_int [OF assms] ebind_def getNumberFromBN_small [OF n _ d])
qed

text \<open>
  C4 does not hold as the specification words it: both functions of the scaler raise at
  \<open>2 ^ 53\<close> with no decimals.
\<close>

theorem scaler_raises_counterexample:
  "getBN 9007199254740992 0 = Inl AssertionError
   \<and> getNumberFromBN 9007199254740992 0 = Inl AssertionError"
  by code_simp

text \<open>Inside the rounding gap \<open>getBN\<close> raises too: the double nearest to
  \<open>(2 ^ 53 - 1) / 10 ^ 6\<close> is not above the threshold, and its product with \<open>10 ^ 6\<close>
  rounds to \<open>2 ^ 53\<close>.\<close>

lemma getBN_rounding_gap_raises:
  "(4722366482869645 / 524288 :: rat) < 2 ^ 53
   \<and> 2 ^ 53 - 1 < (4722366482869645 / 524288 :: rat) * 10 ^ 6
   \<and> (4722366482869645 / 524288 :: rat) * 10 ^ 6 < 2 ^ 53
   \<and> getBN (4722366482869645 / 524288) 6 = Inl AssertionError"
  by code_simp

text \<open>
  C4, as the code has it. The name encoder is total. The scaler is not: bn.js raises when
  it is given a number of \<open>2 ^ 53\<close> or more, and when a big number of more than 53 bits is
  turned into a number. \<open>getBN\<close> returns for a display value from 0 up to \<open>2 ^ 53\<close> and at
  most 15 decimals whose product with \<open>10 ^ decimals\<close> is not strictly between
  \<open>2 ^ 53 - 1\<close> and \<open>2 ^ 53\<close>; \<open>getNumberFromBN\<close> returns for a natural number and at most 15
  decimals when the quotient by \<open>10 ^ decimals\<close> is below \<open>2 ^ 53\<close>.
\<close>

theorem encoder_total_scaler_partial:
  "(\<exists>bytes. formatStringToBytesArray encoder str = Inr bytes)
   \<and> (0 \<le> value \<and> value < 2 ^ 53 \<and> d \<le> 15
        \<and> (value * 10 ^ d \<le> 2 ^ 53 - 1 \<or> 2 ^ 53 \<le> value * 10 ^ d)
       \<longrightarrow> (\<exists>n. getBN value d = Inr n))
   \<and> (0 \<le> n \<and> d \<le> 15 \<and> n div 10 ^ d < 2 ^ 53 \<longrightarrow> (\<exists>x. getNumberFromBN n d = Inr x))"
proof (intro conjI impI)
  from formatStringToBytesArray_prefix [of str encoder]
  show "\<exists>bytes. formatStringToBytesArray encoder str = Inr bytes" by blast
next
  assume "0 \<le> value \<and> value < 2 ^ 53 \<and> d \<le> 15
        \<and> (value * 10 ^ d \<le> 2 ^ 53 - 1 \<or> 2 ^ 53 \<le> value * 10 ^ d)"
  then show "\<exists>n. getBN value d = Inr n" by (simp add: getBN_returns)
next
  assume "0 \<le> n \<and> d \<le> 15 \<and> n div 10 ^ d < 2 ^ 53"
  then have n: "0 \<le> n" and d: "d \<le> 15" and q: "n div 10 ^ d < 2 ^ 53" by simp_all
  from n have "0 \<le> n div 10 ^ d" by (simp add: pos_imp_zdiv_nonneg_iff)
  with q have t: "toNumber (n div 10 ^ d) = Inr (of_int (n div 10 ^ d))" by (simp add: toNumber_def)
  show "\<exists>x. getNumberFromBN n d = Inr x"
  proof (cases "2 ^ 53 - 1 < n")
    case True
    with d t show ?thesis by (simp add: getNumberFromBN_big)
  next
    case False
    with n d show ?thesis by (simp add: getNumberFromBN_small)
  qed
qed

theorem encoder_total_scaler_partial_witness:
  "(\<exists>bytes. formatStringToBytesArray TextEncoder_encode [0x61, 0x62] = Inr bytes)
   \<and> (0 :: rat) \<le> 3 / 2 \<and> (3 / 2 :: rat) < 2 ^ 53 \<and> (6 :: nat) \<le> 15
   \<and> (3 / 2 :: rat) * 10 ^ 6 \<le> 2 ^ 53 - 1
   \<and> (\<exists>n. getBN (3 / 2) 6 = Inr n)
   \<and> (0 :: int) \<le> 1500000 \<and> (1500000 :: int) div 10 ^ 6 < 2 ^ 53
   \<and> (\<exists>x. getNumberFromBN 1500000 6 = Inr x)"
  using encoder_total_scaler_partial [of TextEncoder_encode "[0x61, 0x62]" "3 / 2" 6 1500000]
  by simp


text \<open>Between \<open>2 ^ 53 - 1\<close> and \<open>2 ^ 53\<close> rounding decides: for the double
  \<open>900719925474099.125\<close> and one decimal the product is above \<open>2 ^ 53 - 1\<close>, the test of
  the code is false, and the result is the rounded product, not the truncated value
  times 10.\<close>

lemma getBN_rounding_gap_example:
  "2 ^ 53 - 1 < (7205759403792793 / 8 :: rat) * 10 ^ 1
   \<and> getBN (7205759403792793 / 8) 1 = Inr 9007199254740991
   \<and> trunc (7205759403792793 / 8) * 10 ^ 1 = 9007199254740990"
  by code_simp



text \<open>
  C6 does not hold as the specification words it: for the largest 64-bit amount and no
  decimals \<open>getNumberFromBN\<close> raises instead of returning the quotient.
\<close>

theorem getNumberFromBN_counterexample:
  "(2 ^ 53 - 1 :: int) < 18446744073709551615
   \<and> getNumberFromBN 18446744073709551615 0 = Inl AssertionError"
  by code_simp

text \<open>
  C6, as the code has it. For a natural number of smallest units above \<open>2 ^ 53 - 1\<close> and
  at most 15 decimals, \<open>getNumberFromBN\<close> returns the truncating quotient by
  \<open>10 ^ decimals\<close> when that is below \<open>2 ^ 53\<close>, and raises when it is not. For a natural
  number up to \<open>2 ^ 53 - 1\<close> and at most 22 decimals it returns the double nearest to
  the quotient.
\<close>

theorem getNumberFromBN_quotient:
  "(2 ^ 53 - 1 < n \<and> decimals \<le> 15 \<and> n div 10 ^ decimals < 2 ^ 53
      \<longrightarrow> getNumberFromBN n decimals = Inr (of_int (n div 10 ^ decimals)))
   \<and> (2 ^ 53 - 1 < n \<and> decimals \<le> 15 \<and> 2 ^ 53 \<le> n div 10 ^ decimals
      \<longrightarrow> getNumberFromBN n decimals = Inl AssertionError)
   \<and> (0 \<le> n \<and> n \<le> 2 ^ 53 - 1 \<and> decimals \<le> 22
      \<longrightarrow> getNumberFromBN n decimals = Inr (js_div (of_int n) (10 ^ decimals))
          \<and> js_div (of_int n) (10 ^ decimals) = fl (of_int n / 10 ^ decimals))"
proof (intro conjI impI)
  assume a: "2 ^ 53 - 1 < n \<and> decimals \<le> 15 \<and> n div 10 ^ decimals < 2 ^ 53"
  then have "0 \<le> n div 10 ^ decimals" by (simp add: pos_imp_zdiv_nonneg_iff)
  with a show "getNumberFromBN n decimals = Inr (of_int (n div 10 ^ decimals))"
    by (simp add: getNumberFromBN_big toNumber_def)
next
  assume a: "2 ^ 53 - 1 < n \<and> decimals \<le> 15 \<and> 2 ^ 53 \<le> n div 10 ^ decimals"
  then show "getNumberFromBN n decimals = Inl AssertionError"
    by (simp add: getNumberFromBN_big toNumber_def)
next
  assume "0 \<le> n \<and> n \<le> 2 ^ 53 - 1 \<and> decimals \<le> 22"
  then show "getNumberFromBN n decimals = Inr (js_div (of_int n) (10 ^ decimals))"
    by (simp add: getNumberFromBN_small js_div_def)
next
  show "js_div (of_int n) (10 ^ decimals) = fl (of_int n / 10 ^ decimals)"
    by (simp add: js_div_def)
qed

theorem getNumberFromBN_quotient_witness:
  "(2 ^ 53 - 1 :: int) < 18446744073709551615 \<and> (9 :: nat) \<le> 15
   \<and> (18446744073709551615 :: int) div 10 ^ 9 < 2 ^ 53
   \<and> getNumberFromBN 18446744073709551615 9 = Inr 18446744073
   \<and> (2 ^ 53 - 1 :: int) < 18446744073709551615 \<and> (2 :: nat) \<le> 15
   \<and> 2 ^ 53 \<le> (18446744073709551615 :: int) div 10 ^ 2
   \<and> getNumberFromBN 18446744073709551615 2 = Inl AssertionError
   \<and> (0 :: int) \<le> 1500000 \<and> (1500000 :: int) \<le> 2 ^ 53 - 1 \<and> (6 :: nat) \<le> 22
   \<and> getNumberFromBN 1500000 6 = Inr (3 / 2)"
proof -
  have "fl (1500000 / 10 ^ 6) = 3 / 2" by code_simp
  then have "fl (of_int 1500000 / 10 ^ 6) = 3 / 2" by simp
  with getNumberFromBN_quotient [of 18446744073709551615 9]
    getNumberFromBN_quotient [of 18446744073709551615 2]
    getNumberFromBN_quotient [of 1500000 6]
  show ?thesis by simp
qed

text \<open>Where the round trip holds: at 10 000 000 and 9 decimals, for every natural number
  below \<open>2 ^ 53\<close>, and for every double whose product with \<open>10 ^ decimals\<close> is exactly an
  integer up to \<open>2 ^ 53 - 1\<close> and that the test of \<open>getBN\<close> sends to the floating
  multiplication, such as 1.5 at 6 decimals.\<close>

lemma roundTrip_integers:
  "roundTrip 10000000 9 = Inr 10000000
   \<and> (0 \<le> k \<and> k < 2 ^ 53 \<and> decimals \<le> 15 \<longrightarrow> roundTrip (of_int k) decimals = Inr (of_int k))"
proof -
  have "roundTrip (of_int 10000000) 9 = Inr (of_int 10000000)"
    by (rule roundTrip_of_int) simp_all
  then show ?thesis by (simp add: roundTrip_of_int)
qed

lemma roundTrip_exact_product:
  assumes "0 \<le> x" and "x * 10 ^ d = of_int n" and "n \<le> 2 ^ 53 - 1" and "d \<le> 15"
    and "fl x = x" and "\<not> js_div MAX_SAFE (js_pow10 d) < x"
  shows "roundTrip x d = Inr x"
proof -
  from assms(1) have "0 \<le> x * 10 ^ d" by simp
  with assms(2) have n: "0 \<le> n" by simp
  with assms(3) have b: "\<bar>n\<bar> < 2 ^ 53" by simp
  from assms(4) have d: "d \<le> 22" by simp
  have "js_mul x (js_pow10 d) = fl (of_int n)"
    by (simp add: js_mul_def js_pow10_exact [OF d] assms(2))
  also have "\<dots> = of_int n" using b by (rule fl_of_int)
  finally have "getBN x d = Inr n"
    using assms(6) new_BN_of_int [OF b] by (simp add: getBN_def)
  moreover have "of_int n / 10 ^ d = x" using assms(2) by (simp add: field_simps)
  ultimately show ?thesis
    using getNumberFromBN_small [OF n assms(3) d] assms(5) by (simp add: roundTrip_def ebind_def)
qed

lemma roundTrip_examples:
  "roundTrip (3 / 2) 6 = Inr (3 / 2)" "roundTrip (1 / 4) 2 = Inr (1 / 4)"
  "roundTrip (5 / 2) 1 = Inr (5 / 2)"
  by code_simp+

text \<open>A display value with more fractional digits than \<open>decimals\<close> cannot come back: 1.5
  with no decimals comes back as 1.\<close>

lemma roundTrip_beyond_decimals:
  "getBN (3 / 2) 0 = Inr 1 \<and> getNumberFromBN 1 0 = Inr 1 \<and> roundTrip (3 / 2) 0 = Inr 1"
  by code_simp

text \<open>
  C9. The round trip \<open>getNumberFromBN (getBN x d) d\<close> gives back 10 000 000 at 9 decimals,
  and is to give back \<open>x\<close> whenever every magnitude on the way stays under \<open>2 ^ 53 - 1\<close>.
  The code does not: for 0.57 and 2 decimals the floating product \<open>0.57 * 100\<close> is the
  double just below 57, \<open>new BN\<close> cuts it to 56 where \<open>getBN\<close> is to give the same value in
  smallest units, 57, and the round trip returns 0.56.
\<close>

theorem roundTrip_truncates_product:
  "fl (57 / 100) = 5134103575202365 / 9007199254740992
   \<and> js_mul (fl (57 / 100)) (js_pow10 2) = 8022036836253695 / 140737488355328
   \<and> getBN (fl (57 / 100)) 2 = Inr 56
   \<and> getNumberFromBN 56 2 = Inr (fl (56 / 100))
   \<and> roundTrip (fl (57 / 100)) 2 = Inr (fl (56 / 100))
   \<and> fl (56 / 100) \<noteq> fl (57 / 100)"
  by code_simp

end
